theory Spec2Isabelle
  imports Complex_Main "HOL-Library.Word"
begin

section \<open>JavaScript strings and byte arrays\<close>

text \<open>
  A JavaScript string is a sequence of UTF-16 code units, and its \<open>length\<close> property
  counts code units. A \<open>Uint8Array\<close> is a sequence of bytes.
\<close>

type_synonym byte = "8 word"
type_synonym code_unit = "16 word"
type_synonym jsstring = "code_unit list"

definition lit :: "string \<Rightarrow> jsstring" where
  \<comment> \<open>an ASCII string literal of the source, as a JavaScript string\<close>
  "lit s = map (\<lambda>c. of_nat (of_char c)) s"

subsection \<open>The platform's \<open>TextEncoder\<close> and \<open>TextDecoder\<close> (WHATWG Encoding)\<close>

definition is_high_surrogate :: "code_unit \<Rightarrow> bool" where
  "is_high_surrogate u \<longleftrightarrow> 0xD800 \<le> u \<and> u \<le> 0xDBFF"

definition is_low_surrogate :: "code_unit \<Rightarrow> bool" where
  "is_low_surrogate u \<longleftrightarrow> 0xDC00 \<le> u \<and> u \<le> 0xDFFF"

definition is_surrogate :: "code_unit \<Rightarrow> bool" where
  "is_surrogate u \<longleftrightarrow> 0xD800 \<le> u \<and> u \<le> 0xDFFF"

fun code_points :: "jsstring \<Rightarrow> nat list" where
  \<comment> \<open>the scalar values of a string; a surrogate without its partner becomes U+FFFD\<close>
  "code_points [] = []"
| "code_points [u] = [if is_surrogate u then 0xFFFD else unat u]"
| "code_points (u # l # us) =
     (if is_high_surrogate u \<and> is_low_surrogate l
      then (0x10000 + (unat u - 0xD800) * 0x400 + (unat l - 0xDC00)) # code_points us
      else (if is_surrogate u then 0xFFFD else unat u) # code_points (l # us))"

fun well_formed :: "jsstring \<Rightarrow> bool" where
  \<comment> \<open>no surrogate stands alone: the strings that UTF-8 can represent\<close>
  "well_formed [] = True"
| "well_formed [u] = (\<not> is_surrogate u)"
| "well_formed (u # l # us) =
     (if is_high_surrogate u \<and> is_low_surrogate l then well_formed us
      else \<not> is_surrogate u \<and> well_formed (l # us))"

definition utf8_bytes :: "nat \<Rightarrow> byte list" where
  "utf8_bytes c = map of_nat
     (if c < 0x80 then [c]
      else if c < 0x800 then [0xC0 + c div 0x40, 0x80 + c mod 0x40]
      else if c < 0x10000 then
        [0xE0 + c div 0x1000, 0x80 + c div 0x40 mod 0x40, 0x80 + c mod 0x40]
      else
        [0xF0 + c div 0x40000, 0x80 + c div 0x1000 mod 0x40,
         0x80 + c div 0x40 mod 0x40, 0x80 + c mod 0x40])"

definition TextEncoder_encode :: "jsstring \<Rightarrow> byte list" where
  \<comment> \<open>\<open>new TextEncoder().encode(s)\<close>\<close>
  "TextEncoder_encode s = concat (map utf8_bytes (code_points s))"

definition continuation :: "nat \<Rightarrow> bool" where
  "continuation b \<longleftrightarrow> 0x80 \<le> b \<and> b \<le> 0xBF"

fun utf8_decode :: "nat list \<Rightarrow> nat list" where
  \<comment> \<open>the UTF-8 decoder in replacement mode: an ill-formed sequence yields U+FFFD and
      decoding resumes at the byte that broke it\<close>
  "utf8_decode [] = []"
| "utf8_decode (b0 # bs) =
    (if b0 < 0x80 then b0 # utf8_decode bs
     else if 0xC2 \<le> b0 \<and> b0 \<le> 0xDF then
       (case bs of
          [] \<Rightarrow> [0xFFFD]
        | b1 # bs1 \<Rightarrow>
            if continuation b1
            then ((b0 - 0xC0) * 0x40 + (b1 - 0x80)) # utf8_decode bs1
            else 0xFFFD # utf8_decode bs)
     else if 0xE0 \<le> b0 \<and> b0 \<le> 0xEF then
       (case bs of
          [] \<Rightarrow> [0xFFFD]
        | b1 # bs1 \<Rightarrow>
            if (if b0 = 0xE0 then 0xA0 else 0x80) \<le> b1 \<and>
               b1 \<le> (if b0 = 0xED then 0x9F else 0xBF)
            then
              (case bs1 of
                 [] \<Rightarrow> [0xFFFD]
               | b2 # bs2 \<Rightarrow>
                   if continuation b2
                   then ((b0 - 0xE0) * 0x1000 + (b1 - 0x80) * 0x40 + (b2 - 0x80))
                        # utf8_decode bs2
                   else 0xFFFD # utf8_decode bs1)
            else 0xFFFD # utf8_decode bs)
     else if 0xF0 \<le> b0 \<and> b0 \<le> 0xF4 then
       (case bs of
          [] \<Rightarrow> [0xFFFD]
        | b1 # bs1 \<Rightarrow>
            if (if b0 = 0xF0 then 0x90 else 0x80) \<le> b1 \<and>
               b1 \<le> (if b0 = 0xF4 then 0x8F else 0xBF)
            then
              (case bs1 of
                 [] \<Rightarrow> [0xFFFD]
               | b2 # bs2 \<Rightarrow>
                   if continuation b2
                   then
                     (case bs2 of
                        [] \<Rightarrow> [0xFFFD]
                      | b3 # bs3 \<Rightarrow>
                          if continuation b3
                          then ((b0 - 0xF0) * 0x40000 + (b1 - 0x80) * 0x1000
                                + (b2 - 0x80) * 0x40 + (b3 - 0x80)) # utf8_decode bs3
                          else 0xFFFD # utf8_decode bs2)
                   else 0xFFFD # utf8_decode bs1)
            else 0xFFFD # utf8_decode bs)
     else 0xFFFD # utf8_decode bs)"

definition utf16_units :: "nat \<Rightarrow> jsstring" where
  "utf16_units c =
     (if c < 0x10000 then [of_nat c]
      else [of_nat (0xD800 + (c - 0x10000) div 0x400),
            of_nat (0xDC00 + (c - 0x10000) mod 0x400)])"

definition strip_bom :: "nat list \<Rightarrow> nat list" where
  \<comment> \<open>\<open>new TextDecoder()\<close> has \<open>ignoreBOM = false\<close>: a leading U+FEFF is dropped\<close>
  "strip_bom cs = (case cs of [] \<Rightarrow> [] | c # rest \<Rightarrow> if c = 0xFEFF then rest else cs)"

definition TextDecoder_decode :: "byte list \<Rightarrow> jsstring" where
  \<comment> \<open>\<open>new TextDecoder().decode(bytes)\<close>: UTF-8, not fatal\<close>
  "TextDecoder_decode bs =
     concat (map utf16_units (strip_bom (utf8_decode (map unat bs))))"

definition scalar_value :: "nat \<Rightarrow> bool" where
  "scalar_value c \<longleftrightarrow> c < 0x110000 \<and> \<not> (0xD800 \<le> c \<and> c \<le> 0xDFFF)"

subsection \<open>JSON values\<close>

text \<open>
  The values \<open>JSON.parse\<close> returns. A number is kept as the exact value of its
  literal; the engine rounds it to the nearest IEEE double, which changes no integer below
  \<open>2^53\<close> (every size, length and timestamp of this program). An object keeps its
  members in the order of the text; reading a property takes the last member of that name.
\<close>

datatype json =
    JNull
  | JBool bool
  | JNumber rat
  | JString jsstring
  | JArray "json list"
  | JObject "(jsstring \<times> json) list"

subsection \<open>Exceptions\<close>

text \<open>
  A thrown exception is a value. The exceptions of the platform keep their kind (their
  message text is the engine's own); an \<open>Error\<close> made by the source keeps its message,
  and \<open>ErrorFrom p e\<close> is \<open>new Error(p + e.message)\<close>, \<open>ErrorValue p x\<close> is
  \<open>new Error(p + x)\<close> for a value \<open>x\<close> (\<open>None\<close> is \<open>undefined\<close>).
\<close>

datatype js_error =
    InvalidCharacterError
  | RangeError
  | SyntaxError
  | TypeError
  | ReferenceError
  | StreamError
  | Error string
  | ErrorFrom string js_error
  | ErrorValue string "json option"

definition get_property :: "json \<Rightarrow> jsstring \<Rightarrow> js_error + json option" where
  \<comment> \<open>\<open>x.k\<close> for a name \<open>k\<close> that no prototype defines (the source reads \<open>c\<close> and
      \<open>compression\<close>): \<open>None\<close> is \<open>undefined\<close>, and reading from \<open>null\<close> throws\<close>
  "get_property x k =
     (case x of
        JNull \<Rightarrow> Inl TypeError
      | JObject kvs \<Rightarrow> Inr (map_of (rev kvs) k)
      | _ \<Rightarrow> Inr None)"

subsection \<open>The platform's \<open>btoa\<close> and \<open>atob\<close> (forgiving-base64, WHATWG Infra)\<close>

definition b64char :: "nat \<Rightarrow> code_unit" where
  "b64char n = of_nat
     (if n < 26 then 65 + n else if n < 52 then 71 + n else if n < 62 then n - 4
      else if n = 62 then 43 else 47)"

fun sextets :: "nat list \<Rightarrow> nat list" where
  "sextets (a # b # d # rest) =
     [a div 4, a mod 4 * 16 + b div 16, b mod 16 * 4 + d div 64, d mod 64] @ sextets rest"
| "sextets [a, b] = [a div 4, a mod 4 * 16 + b div 16, b mod 16 * 4]"
| "sextets [a] = [a div 4, a mod 4 * 16]"
| "sextets [] = []"

definition btoa :: "jsstring \<Rightarrow> js_error + jsstring" where
  "btoa s =
     (if \<exists>u\<in>set s. 0xFF < u then Inl InvalidCharacterError
      else Inr (map b64char (sextets (map unat s))
                @ replicate ((3 - length s mod 3) mod 3) 0x3D))"

definition ascii_whitespace :: "code_unit \<Rightarrow> bool" where
  "ascii_whitespace u \<longleftrightarrow> u = 0x9 \<or> u = 0xA \<or> u = 0xC \<or> u = 0xD \<or> u = 0x20"

definition b64val :: "code_unit \<Rightarrow> nat option" where
  "b64val u =
     (let n = unat u in
      if 65 \<le> n \<and> n \<le> 90 then Some (n - 65)
      else if 97 \<le> n \<and> n \<le> 122 then Some (n - 71)
      else if 48 \<le> n \<and> n \<le> 57 then Some (n + 4)
      else if n = 43 then Some 62
      else if n = 47 then Some 63
      else None)"

definition strip_padding :: "jsstring \<Rightarrow> jsstring" where
  \<comment> \<open>a string whose length is a multiple of four loses one or two final \<open>=\<close>\<close>
  "strip_padding d =
     (if length d mod 4 = 0 \<and> d \<noteq> [] \<and> last d = 0x3D
      then (if butlast d \<noteq> [] \<and> last (butlast d) = 0x3D then butlast (butlast d)
            else butlast d)
      else d)"

fun octets :: "nat list \<Rightarrow> nat list" where
  "octets (a # b # d # e # rest) =
     [a * 4 + b div 16, b mod 16 * 16 + d div 4, d mod 4 * 64 + e] @ octets rest"
| "octets [a, b, d] = [a * 4 + b div 16, b mod 16 * 16 + d div 4]"
| "octets [a, b] = [a * 4 + b div 16]"
| "octets [a] = []"
| "octets [] = []"

definition atob :: "jsstring \<Rightarrow> js_error + jsstring" where
  "atob s =
     (let d = strip_padding (filter (\<lambda>u. \<not> ascii_whitespace u) s) in
      if length d mod 4 = 1 then Inl InvalidCharacterError
      else case those (map b64val d) of
             None \<Rightarrow> Inl InvalidCharacterError
           | Some vs \<Rightarrow> Inr (map of_nat (octets vs)))"

definition binary_string :: "byte list \<Rightarrow> jsstring" where
  \<comment> \<open>the string that has one code unit for each byte\<close>
  "binary_string bs = map ucast bs"

definition String_fromCharCode :: "nat \<Rightarrow> byte list \<Rightarrow> js_error + jsstring" where
  \<comment> \<open>\<open>String.fromCharCode(...bytes)\<close>. The spread makes every byte an argument of
      the call, and an engine throws a \<open>RangeError\<close> when a call has more arguments than its
      stack takes; \<open>bound\<close> is that number for the engine\<close>
  "String_fromCharCode bound bs =
     (if length bs \<le> bound then Inr (binary_string bs) else Inl RangeError)"

definition Uint8Array_from_binary :: "jsstring \<Rightarrow> byte list" where
  \<comment> \<open>the loop \<open>bytes[i] = binaryStr.charCodeAt(i)\<close>; a store into a \<open>Uint8Array\<close>
      keeps the low eight bits\<close>
  "Uint8Array_from_binary s = map ucast s"

subsection \<open>\<open>DataView\<close>: the little-endian 32-bit length prefix\<close>

definition setUint32_le :: "nat \<Rightarrow> byte list" where
  \<comment> \<open>\<open>view.setUint32(0, n, true)\<close> on a fresh 4-byte buffer; the value is taken
      modulo \<open>2^32\<close>\<close>
  "setUint32_le n = map of_nat
     [n mod 0x100, n div 0x100 mod 0x100, n div 0x10000 mod 0x100, n div 0x1000000 mod 0x100]"

definition getUint32_le :: "byte list \<Rightarrow> js_error + nat" where
  \<comment> \<open>\<open>view.getUint32(0, true)\<close>; a buffer shorter than four bytes raises \<open>RangeError\<close>\<close>
  "getUint32_le bs =
     (case bs of
        b0 # b1 # b2 # b3 # _ \<Rightarrow>
          Inr (unat b0 + unat b1 * 0x100 + unat b2 * 0x10000 + unat b3 * 0x1000000)
      | _ \<Rightarrow> Inl RangeError)"


section \<open>JSON text\<close>

subsection \<open>Numbers as decimal text\<close>

function decimal_digits :: "nat \<Rightarrow> nat list" where
  "decimal_digits n = (if n < 10 then [n] else decimal_digits (n div 10) @ [n mod 10])"
  by pat_completeness auto
termination
  by (relation "measure id") auto

declare decimal_digits.simps [simp del]

definition digit_unit :: "nat \<Rightarrow> code_unit" where
  "digit_unit d = of_nat (48 + d)"

definition Number_toString :: "int \<Rightarrow> jsstring" where
  \<comment> \<open>an integer below \<open>10^21\<close> in magnitude prints as its decimal digits\<close>
  "Number_toString i =
     (if i < 0 then [0x2D] else []) @ map digit_unit (decimal_digits (nat \<bar>i\<bar>))"

definition show_decimal :: "nat \<Rightarrow> string" where
  \<comment> \<open>the same digits, for the message of an \<open>Error\<close>\<close>
  "show_decimal n = map (\<lambda>d. char_of (48 + d)) (decimal_digits n)"

subsection \<open>\<open>JSON.stringify\<close> of the metadata object\<close>

definition hex_digit :: "nat \<Rightarrow> code_unit" where
  "hex_digit d = of_nat (if d < 10 then 48 + d else 87 + d)"

definition unicode_escape :: "code_unit \<Rightarrow> jsstring" where
  "unicode_escape u =
     [0x5C, 0x75, hex_digit (unat u div 0x1000), hex_digit (unat u div 0x100 mod 0x10),
      hex_digit (unat u div 0x10 mod 0x10), hex_digit (unat u mod 0x10)]"

definition quote_unit :: "code_unit \<Rightarrow> jsstring" where
  "quote_unit u =
     (if u = 0x08 then [0x5C, 0x62]
      else if u = 0x09 then [0x5C, 0x74]
      else if u = 0x0A then [0x5C, 0x6E]
      else if u = 0x0C then [0x5C, 0x66]
      else if u = 0x0D then [0x5C, 0x72]
      else if u = 0x22 then [0x5C, 0x22]
      else if u = 0x5C then [0x5C, 0x5C]
      else if u < 0x20 \<or> is_surrogate u then unicode_escape u
      else [u])"

fun quote_body :: "jsstring \<Rightarrow> jsstring" where
  \<comment> \<open>a surrogate pair is copied; a surrogate alone is escaped (well-formed
      \<open>JSON.stringify\<close>)\<close>
  "quote_body [] = []"
| "quote_body [u] = quote_unit u"
| "quote_body (u # l # us) =
     (if is_high_surrogate u \<and> is_low_surrogate l then u # l # quote_body us
      else quote_unit u @ quote_body (l # us))"

definition QuoteJSONString :: "jsstring \<Rightarrow> jsstring" where
  "QuoteJSONString s = 0x22 # quote_body s @ [0x22]"

subsection \<open>\<open>JSON.parse\<close>\<close>

definition json_whitespace :: "code_unit \<Rightarrow> bool" where
  "json_whitespace u \<longleftrightarrow> u = 0x20 \<or> u = 0x09 \<or> u = 0x0A \<or> u = 0x0D"

definition skip_ws :: "jsstring \<Rightarrow> jsstring" where
  "skip_ws s = dropWhile json_whitespace s"

definition hex_value :: "code_unit \<Rightarrow> nat option" where
  "hex_value u =
     (let n = unat u in
      if 48 \<le> n \<and> n \<le> 57 then Some (n - 48)
      else if 97 \<le> n \<and> n \<le> 102 then Some (n - 87)
      else if 65 \<le> n \<and> n \<le> 70 then Some (n - 55)
      else None)"

definition simple_escape :: "code_unit \<Rightarrow> code_unit option" where
  "simple_escape e =
     (if e = 0x22 then Some 0x22
      else if e = 0x5C then Some 0x5C
      else if e = 0x2F then Some 0x2F
      else if e = 0x62 then Some 0x08
      else if e = 0x66 then Some 0x0C
      else if e = 0x6E then Some 0x0A
      else if e = 0x72 then Some 0x0D
      else if e = 0x74 then Some 0x09
      else None)"

definition hex4 :: "code_unit \<Rightarrow> code_unit \<Rightarrow> code_unit \<Rightarrow> code_unit \<Rightarrow> code_unit option" where
  "hex4 h1 h2 h3 h4 =
     (case hex_value h1 of None \<Rightarrow> None | Some a \<Rightarrow>
      case hex_value h2 of None \<Rightarrow> None | Some b \<Rightarrow>
      case hex_value h3 of None \<Rightarrow> None | Some d \<Rightarrow>
      case hex_value h4 of None \<Rightarrow> None | Some e \<Rightarrow>
        Some (of_nat (a * 0x1000 + b * 0x100 + d * 0x10 + e)))"

definition cons_result :: "code_unit \<Rightarrow> (jsstring \<times> jsstring) option \<Rightarrow> (jsstring \<times> jsstring) option" where
  "cons_result u res = (case res of None \<Rightarrow> None | Some (s, r) \<Rightarrow> Some (u # s, r))"

fun parse_string :: "jsstring \<Rightarrow> (jsstring \<times> jsstring) option" where
  \<comment> \<open>the text after an opening quote: the string's value and what follows the closing
      quote\<close>
  "parse_string [] = None"
| "parse_string (u # us) =
     (if u = 0x22 then Some ([], us)
      else if u = 0x5C then
        (case us of
           [] \<Rightarrow> None
         | e # us1 \<Rightarrow>
             if e = 0x75 then
               (case us1 of
                  h1 # h2 # h3 # h4 # us2 \<Rightarrow>
                    (case hex4 h1 h2 h3 h4 of
                       None \<Rightarrow> None
                     | Some x \<Rightarrow> cons_result x (parse_string us2))
                | _ \<Rightarrow> None)
             else
               (case simple_escape e of
                  None \<Rightarrow> None
                | Some x \<Rightarrow> cons_result x (parse_string us1)))
      else if u < 0x20 then None
      else cons_result u (parse_string us))"

definition is_digit :: "code_unit \<Rightarrow> bool" where
  "is_digit u \<longleftrightarrow> 0x30 \<le> u \<and> u \<le> 0x39"

definition digits_value :: "jsstring \<Rightarrow> nat" where
  "digits_value ds = foldl (\<lambda>acc d. acc * 10 + (unat d - 48)) 0 ds"

definition parse_sign :: "jsstring \<Rightarrow> bool \<times> jsstring" where
  "parse_sign s = (case s of [] \<Rightarrow> (False, s) | u # r \<Rightarrow> if u = 0x2D then (True, r) else (False, s))"

definition parse_fraction :: "jsstring \<Rightarrow> (jsstring \<times> jsstring) option" where
  "parse_fraction s =
     (case s of
        [] \<Rightarrow> Some ([], s)
      | u # r \<Rightarrow>
          if u = 0x2E then
            (if takeWhile is_digit r = [] then None
             else Some (takeWhile is_digit r, dropWhile is_digit r))
          else Some ([], s))"

definition parse_exponent :: "jsstring \<Rightarrow> (int \<times> jsstring) option" where
  "parse_exponent s =
     (case s of
        [] \<Rightarrow> Some (0, s)
      | u # r \<Rightarrow>
          if u = 0x65 \<or> u = 0x45 then
            (let (neg, r1) =
               (case r of
                  [] \<Rightarrow> (False, r)
                | sg # r' \<Rightarrow>
                    if sg = 0x2D then (True, r') else if sg = 0x2B then (False, r')
                    else (False, r))
             in if takeWhile is_digit r1 = [] then None
                else Some ((if neg then - 1 else 1) * int (digits_value (takeWhile is_digit r1)),
                           dropWhile is_digit r1))
          else Some (0, s))"

definition parse_number :: "jsstring \<Rightarrow> (rat \<times> jsstring) option" where
  "parse_number s =
     (let (neg, s1) = parse_sign s;
          ip = takeWhile is_digit s1
      in if ip = [] \<or> (1 < length ip \<and> hd ip = 0x30) then None
         else case parse_fraction (dropWhile is_digit s1) of
                None \<Rightarrow> None
              | Some (fp, s2) \<Rightarrow>
                  (case parse_exponent s2 of
                     None \<Rightarrow> None
                   | Some (ex, s3) \<Rightarrow>
                       Some ((if neg then - 1 else 1) * of_nat (digits_value (ip @ fp))
                             * 10 powi (ex - int (length fp)), s3)))"

definition strip_prefix :: "jsstring \<Rightarrow> jsstring \<Rightarrow> jsstring option" where
  "strip_prefix p s = (if take (length p) s = p then Some (drop (length p) s) else None)"

definition parse_literal :: "jsstring \<Rightarrow> (json \<times> jsstring) option" where
  "parse_literal s =
     (case strip_prefix (lit ''true'') s of
        Some r \<Rightarrow> Some (JBool True, r)
      | None \<Rightarrow>
          (case strip_prefix (lit ''false'') s of
             Some r \<Rightarrow> Some (JBool False, r)
           | None \<Rightarrow>
               (case strip_prefix (lit ''null'') s of
                  Some r \<Rightarrow> Some (JNull, r)
                | None \<Rightarrow> None)))"

text \<open>
  The recursive descent carries a bound on its depth, which each call lowers by one.
  \<open>JSON_parse\<close> starts it at twice the length of the text plus two: a call that goes down
  without reading is followed by one that reads a character.
\<close>

fun parse_value :: "nat \<Rightarrow> jsstring \<Rightarrow> (json \<times> jsstring) option"
  and parse_elements :: "nat \<Rightarrow> jsstring \<Rightarrow> (json list \<times> jsstring) option"
  and parse_members :: "nat \<Rightarrow> jsstring \<Rightarrow> ((jsstring \<times> json) list \<times> jsstring) option"
where
  "parse_value 0 s = None"
| "parse_value (Suc n) s =
     (case skip_ws s of
        [] \<Rightarrow> None
      | u # us \<Rightarrow>
          if u = 0x7B then
            (case skip_ws us of
               [] \<Rightarrow> None
             | u1 # us1 \<Rightarrow>
                 if u1 = 0x7D then Some (JObject [], us1)
                 else (case parse_members n (u1 # us1) of
                         None \<Rightarrow> None
                       | Some (kvs, r) \<Rightarrow> Some (JObject kvs, r)))
          else if u = 0x5B then
            (case skip_ws us of
               [] \<Rightarrow> None
             | u1 # us1 \<Rightarrow>
                 if u1 = 0x5D then Some (JArray [], us1)
                 else (case parse_elements n (u1 # us1) of
                         None \<Rightarrow> None
                       | Some (xs, r) \<Rightarrow> Some (JArray xs, r)))
          else if u = 0x22 then
            (case parse_string us of
               None \<Rightarrow> None
             | Some (str, r) \<Rightarrow> Some (JString str, r))
          else if u = 0x2D \<or> is_digit u then
            (case parse_number (u # us) of
               None \<Rightarrow> None
             | Some (q, r) \<Rightarrow> Some (JNumber q, r))
          else parse_literal (u # us))"
| "parse_elements 0 s = None"
| "parse_elements (Suc n) s =
     (case parse_value n s of
        None \<Rightarrow> None
      | Some (x, r) \<Rightarrow>
          (case skip_ws r of
             [] \<Rightarrow> None
           | u # us \<Rightarrow>
               if u = 0x5D then Some ([x], us)
               else if u = 0x2C then
                 (case parse_elements n us of
                    None \<Rightarrow> None
                  | Some (xs, r1) \<Rightarrow> Some (x # xs, r1))
               else None))"
| "parse_members 0 s = None"
| "parse_members (Suc n) s =
     (case skip_ws s of
        [] \<Rightarrow> None
      | q # us \<Rightarrow>
          if q \<noteq> 0x22 then None
          else
            (case parse_string us of
               None \<Rightarrow> None
             | Some (k, r) \<Rightarrow>
                 (case skip_ws r of
                    [] \<Rightarrow> None
                  | colon # r1 \<Rightarrow>
                      if colon \<noteq> 0x3A then None
                      else
                        (case parse_value n r1 of
                           None \<Rightarrow> None
                         | Some (x, r2) \<Rightarrow>
                             (case skip_ws r2 of
                                [] \<Rightarrow> None
                              | u # r3 \<Rightarrow>
                                  if u = 0x7D then Some ([(k, x)], r3)
                                  else if u = 0x2C then
                                    (case parse_members n r3 of
                                       None \<Rightarrow> None
                                     | Some (kvs, r4) \<Rightarrow> Some ((k, x) # kvs, r4))
                                  else None)))))"

definition JSON_parse :: "jsstring \<Rightarrow> js_error + json" where
  "JSON_parse s =
     (case parse_value (2 * length s + 2) s of
        None \<Rightarrow> Inl SyntaxError
      | Some (x, r) \<Rightarrow> if skip_ws r = [] then Inr x else Inl SyntaxError)"


section \<open>JavaScript numbers\<close>

text \<open>
  A number is an IEEE double: \<open>Finite m e\<close> is the value \<open>m * 2^e\<close> with \<open>\<bar>m\<bar> \<le> 2^53\<close>, and
  an arithmetic operation rounds its exact result to the nearest such value, ties to the
  even significand. The operands of this program are byte counts and what is computed
  from three of them, far inside the exponent range of a double, so overflow to infinity
  and subnormal results are left out; the sign of a zero, which \<open>===\<close> and the conversions
  to text do not show, is left out as well. \<open>jsint\<close> holds the results of \<open>Math.round\<close> and
  \<open>Math.floor\<close>, which are integers unless the argument was not finite. The double that
  \<open>Math.log\<close> returns is left to the engine by the language, so it is taken from the
  platform, below.
\<close>

datatype jsnum = Finite int int | PosInf | NegInf | NaN

datatype jsint = Integer int | IPosInf | INegInf | INaN

function bit_length :: "nat \<Rightarrow> nat" where
  "bit_length n = (if n = 0 then 0 else Suc (bit_length (n div 2)))"
  by pat_completeness auto
termination
  by (relation "measure id") auto

declare bit_length.simps [simp del]

definition round53 :: "int \<Rightarrow> int \<Rightarrow> jsnum" where
  \<comment> \<open>the double nearest to \<open>m * 2^e\<close>\<close>
  "round53 m e =
     (if \<bar>m\<bar> < 2 ^ 53 then Finite m e
      else
        (let k = bit_length (nat \<bar>m\<bar>) - 53;
             q = \<bar>m\<bar> div 2 ^ k;
             r = \<bar>m\<bar> mod 2 ^ k;
             q' = (if 2 * r > 2 ^ k \<or> (2 * r = 2 ^ k \<and> odd q) then q + 1 else q)
         in Finite (sgn m * q') (e + int k)))"

definition round_ratio :: "int \<Rightarrow> int \<Rightarrow> jsnum" where
  \<comment> \<open>the double nearest to \<open>a / b\<close>, for \<open>b > 0\<close>: a quotient of at least 55 bits, with
      one more bit that tells whether the division left a remainder\<close>
  "round_ratio a b =
     (let s = 55 + int (bit_length (nat b)) - int (bit_length (nat \<bar>a\<bar>));
          n = (if 0 \<le> s then \<bar>a\<bar> * 2 ^ nat s else \<bar>a\<bar>);
          d = (if 0 \<le> s then b else b * 2 ^ nat (- s));
          q = 2 * (n div d) + (if n mod d = 0 then 0 else 1)
      in round53 (sgn a * q) (- s - 1))"

definition js_of_int :: "int \<Rightarrow> jsnum" where
  "js_of_int i = round53 i 0"

definition js_div :: "jsnum \<Rightarrow> jsnum \<Rightarrow> jsnum" where
  "js_div x y =
     (case (x, y) of
        (Finite m1 e1, Finite m2 e2) \<Rightarrow>
          if m2 = 0 then (if m1 = 0 then NaN else if 0 < m1 then PosInf else NegInf)
          else
            (case round_ratio (m1 * sgn m2) \<bar>m2\<bar> of
               Finite m e \<Rightarrow> Finite m (e + e1 - e2)
             | z \<Rightarrow> z)
      | (Finite m1 e1, PosInf) \<Rightarrow> Finite 0 0
      | (Finite m1 e1, NegInf) \<Rightarrow> Finite 0 0
      | (PosInf, Finite m2 e2) \<Rightarrow> if 0 \<le> m2 then PosInf else NegInf
      | (NegInf, Finite m2 e2) \<Rightarrow> if 0 \<le> m2 then NegInf else PosInf
      | _ \<Rightarrow> NaN)"

definition js_sub :: "jsnum \<Rightarrow> jsnum \<Rightarrow> jsnum" where
  "js_sub x y =
     (case (x, y) of
        (Finite m1 e1, Finite m2 e2) \<Rightarrow>
          (let e = min e1 e2
           in round53 (m1 * 2 ^ nat (e1 - e) - m2 * 2 ^ nat (e2 - e)) e)
      | (Finite m1 e1, PosInf) \<Rightarrow> NegInf
      | (Finite m1 e1, NegInf) \<Rightarrow> PosInf
      | (PosInf, Finite m2 e2) \<Rightarrow> PosInf
      | (PosInf, NegInf) \<Rightarrow> PosInf
      | (NegInf, Finite m2 e2) \<Rightarrow> NegInf
      | (NegInf, PosInf) \<Rightarrow> NegInf
      | _ \<Rightarrow> NaN)"

definition js_mul :: "jsnum \<Rightarrow> jsnum \<Rightarrow> jsnum" where
  "js_mul x y =
     (case (x, y) of
        (Finite m1 e1, Finite m2 e2) \<Rightarrow> round53 (m1 * m2) (e1 + e2)
      | (Finite m1 e1, PosInf) \<Rightarrow> if m1 = 0 then NaN else if 0 < m1 then PosInf else NegInf
      | (Finite m1 e1, NegInf) \<Rightarrow> if m1 = 0 then NaN else if 0 < m1 then NegInf else PosInf
      | (PosInf, Finite m2 e2) \<Rightarrow> if m2 = 0 then NaN else if 0 < m2 then PosInf else NegInf
      | (NegInf, Finite m2 e2) \<Rightarrow> if m2 = 0 then NaN else if 0 < m2 then NegInf else PosInf
      | (PosInf, PosInf) \<Rightarrow> PosInf
      | (NegInf, NegInf) \<Rightarrow> PosInf
      | (PosInf, NegInf) \<Rightarrow> NegInf
      | (NegInf, PosInf) \<Rightarrow> NegInf
      | _ \<Rightarrow> NaN)"

definition Math_round :: "jsnum \<Rightarrow> jsint" where
  \<comment> \<open>the nearest integer, a tie going up: \<open>\<lfloor>x + 1/2\<rfloor>\<close>\<close>
  "Math_round x =
     (case x of
        Finite m e \<Rightarrow>
          if 0 \<le> e then Integer (m * 2 ^ nat e)
          else Integer ((2 * m + 2 ^ nat (- e)) div 2 ^ nat (1 - e))
      | PosInf \<Rightarrow> IPosInf
      | NegInf \<Rightarrow> INegInf
      | NaN \<Rightarrow> INaN)"

definition Math_floor :: "jsnum \<Rightarrow> jsint" where
  "Math_floor x =
     (case x of
        Finite m e \<Rightarrow>
          if 0 \<le> e then Integer (m * 2 ^ nat e) else Integer (m div 2 ^ nat (- e))
      | PosInf \<Rightarrow> IPosInf
      | NegInf \<Rightarrow> INegInf
      | NaN \<Rightarrow> INaN)"

definition Math_pow :: "int \<Rightarrow> jsint \<Rightarrow> jsnum" where
  \<comment> \<open>\<open>Math.pow(k, i)\<close> for \<open>k = 1024\<close>: the power of two \<open>2^(10 i)\<close>, infinite above the
      largest double and 0 below the smallest\<close>
  "Math_pow k i =
     (case i of
        Integer n \<Rightarrow>
          if 1023 < 10 * n then PosInf
          else if 10 * n < - 1074 then Finite 0 0
          else Finite 1 (10 * n)
      | IPosInf \<Rightarrow> PosInf
      | INegInf \<Rightarrow> Finite 0 0
      | INaN \<Rightarrow> NaN)"

definition two_digits :: "nat \<Rightarrow> jsstring" where
  "two_digits n = [of_nat (48 + n div 10 mod 10), of_nat (48 + n mod 10)]"

definition toFixed2 :: "jsnum \<Rightarrow> jsstring" where
  \<comment> \<open>\<open>x.toFixed(2)\<close>: the integer \<open>n\<close> nearest to \<open>100 * \<bar>x\<bar>\<close>, the larger of two, then its
      digits with a point before the last two (for \<open>\<bar>x\<bar> < 10^21\<close>)\<close>
  "toFixed2 x =
     (case x of
        Finite m e \<Rightarrow>
          (let n = (if 0 \<le> e then \<bar>m\<bar> * 100 * 2 ^ nat e
                    else (2 * \<bar>m\<bar> * 100 + 2 ^ nat (- e)) div 2 ^ nat (1 - e))
           in (if m < 0 then [0x2D] else [])
              @ map (\<lambda>d. of_nat (48 + d)) (decimal_digits (nat n div 100))
              @ [0x2E] @ two_digits (nat n mod 100))
      | PosInf \<Rightarrow> lit ''Infinity''
      | NegInf \<Rightarrow> lit ''-Infinity''
      | NaN \<Rightarrow> lit ''NaN'')"

definition parseFloat_text :: "jsstring \<Rightarrow> jsstring" where
  \<comment> \<open>the text of \<open>parseFloat(t)\<close> when it is joined to a string, for a result \<open>t\<close> of
      \<open>toFixed(2)\<close>: \<open>parseFloat\<close> reads the decimal, and the shortest text that reads back to
      the same double is that decimal without its final zeros (it has fewer than 16 digits,
      being below 1024 here); \<open>NaN\<close> and the infinities print as their names\<close>
  "parseFloat_text t =
     (if t = lit ''NaN'' \<or> t = lit ''Infinity'' \<or> t = lit ''-Infinity'' then t
      else
        (let u = rev (dropWhile (\<lambda>x. x = 0x30) (rev t));
             w = (if u \<noteq> [] \<and> last u = 0x2E then butlast u else u)
         in if w = lit ''-0'' then lit ''0'' else w))"

definition array_text :: "string list \<Rightarrow> jsint \<Rightarrow> jsstring" where
  \<comment> \<open>\<open>sizes[i]\<close> joined to a string: an index that is no element gives \<open>undefined\<close>\<close>
  "array_text xs i =
     (case i of
        Integer n \<Rightarrow> if 0 \<le> n \<and> nat n < length xs then lit (xs ! nat n) else lit ''undefined''
      | _ \<Rightarrow> lit ''undefined'')"


section \<open>The codec of \<open>js/compression-fixed.js\<close>\<close>

text \<open>
  The methods are \<open>async\<close>; a method is modelled by the value its promise settles to,
  \<open>Inl\<close> for a rejection. \<open>Date.now()\<close> is the argument \<open>now\<close>. What the browser provides
  beyond the encodings above is a parameter: how many arguments a call may have, the
  double that \<open>Math.log\<close> returns for an integer above 1, whether the stream classes exist,
  what a \<open>CompressionStream\<close> or \<open>DecompressionStream\<close> of a given format delivers for an
  input (its chunks in order, or \<open>None\<close> when the stream reports an error), and, for the
  variant that uses it, the Pako library.
\<close>

record platform =
  max_arguments :: nat
  log_double :: "int \<Rightarrow> jsnum"
  has_CompressionStream :: bool
  has_DecompressionStream :: bool
  CompressionStream :: "string \<Rightarrow> byte list \<Rightarrow> byte list list"
  DecompressionStream :: "string \<Rightarrow> byte list \<Rightarrow> byte list list option"
  has_pako :: bool
  pako_gzip :: "jsstring \<Rightarrow> byte list"
  pako_ungzip :: "byte list \<Rightarrow> jsstring option"

record compression =
  supportsBrotli :: bool
  supportsGzip :: bool

definition MakeSitesCompression :: "platform \<Rightarrow> compression" where
  \<comment> \<open>the constructor\<close>
  "MakeSitesCompression P =
     \<lparr>supportsBrotli = has_CompressionStream P \<and> has_DecompressionStream P,
      supportsGzip = has_CompressionStream P \<and> has_DecompressionStream P\<rparr>"

record metadata =
  v :: nat
  c :: jsstring
  f :: jsstring
  os :: nat
  cs :: nat
  ts :: int

definition JSON_stringify :: "metadata \<Rightarrow> jsstring" where
  \<comment> \<open>\<open>JSON.stringify\<close> of the object literal: its properties in the order written\<close>
  "JSON_stringify m =
     lit ''{\"v\":'' @ Number_toString (int (v m))
     @ lit '',\"c\":'' @ QuoteJSONString (c m)
     @ lit '',\"f\":'' @ QuoteJSONString (f m)
     @ lit '',\"os\":'' @ Number_toString (int (os m))
     @ lit '',\"cs\":'' @ Number_toString (int (cs m))
     @ lit '',\"ts\":'' @ Number_toString (ts m)
     @ lit ''}''"

definition metadata_json :: "metadata \<Rightarrow> json" where
  \<comment> \<open>the object that the text of \<open>JSON_stringify\<close> denotes\<close>
  "metadata_json m =
     JObject
       [(lit ''v'', JNumber (of_nat (v m))), (lit ''c'', JString (c m)),
        (lit ''f'', JString (f m)), (lit ''os'', JNumber (of_nat (os m))),
        (lit ''cs'', JNumber (of_nat (cs m))), (lit ''ts'', JNumber (of_int (ts m)))]"

definition encodeWithMetadata :: "platform \<Rightarrow> byte list \<Rightarrow> metadata \<Rightarrow> js_error + jsstring" where
  "encodeWithMetadata P data m =
     (let metadataStr = JSON_stringify m;
          metadataBytes = TextEncoder_encode metadataStr;
          lengthBytes = setUint32_le (length metadataBytes);
          combined = lengthBytes @ metadataBytes @ data
      in case String_fromCharCode (max_arguments P) combined of
           Inl e \<Rightarrow> Inl e
         | Inr binaryStr \<Rightarrow> btoa binaryStr)"

definition compress_metadata :: "jsstring \<Rightarrow> jsstring \<Rightarrow> int \<Rightarrow> metadata" where
  \<comment> \<open>the object literal in \<open>compress\<close>\<close>
  "compress_metadata text format now =
     (let encoded = TextEncoder_encode text
      in \<lparr>v = 1, c = lit ''none'', f = format, os = length text, cs = length encoded,
          ts = now\<rparr>)"

definition compress :: "platform \<Rightarrow> compression \<Rightarrow> jsstring \<Rightarrow> jsstring \<Rightarrow> int \<Rightarrow> js_error + jsstring" where
  "compress P this text format now =
     (case (let encoded = TextEncoder_encode text;
                m = compress_metadata text format now
            in encodeWithMetadata P encoded m) of
        Inl e \<Rightarrow> Inl (Error ''Failed to compress content'')
      | Inr t \<Rightarrow> Inr t)"

definition decodeWithMetadata_try :: "jsstring \<Rightarrow> js_error + byte list \<times> json" where
  \<comment> \<open>the \<open>try\<close> block of \<open>_decodeWithMetadata\<close>\<close>
  "decodeWithMetadata_try encodedData =
     (case atob encodedData of
        Inl e \<Rightarrow> Inl e
      | Inr binaryStr \<Rightarrow>
          (let bytes = Uint8Array_from_binary binaryStr in
           case getUint32_le bytes of
             Inl e \<Rightarrow> Inl e
           | Inr metadataLength \<Rightarrow>
               if int metadataLength > int (length bytes) - 4 \<or> int metadataLength < 0
               then Inl (Error (''Invalid metadata length: '' @ show_decimal metadataLength))
               else
                 (let metadataBytes = take metadataLength (drop 4 bytes);
                      data = drop (4 + metadataLength) bytes;
                      metadataStr = TextDecoder_decode metadataBytes
                  in case JSON_parse metadataStr of
                       Inl e \<Rightarrow> Inl e
                     | Inr m \<Rightarrow> Inr (data, m))))"

definition decodeWithMetadata :: "jsstring \<Rightarrow> js_error + byte list \<times> json" where
  "decodeWithMetadata encodedData =
     (case decodeWithMetadata_try encodedData of
        Inl e \<Rightarrow> Inl (ErrorFrom ''Failed to decode metadata: '' e)
      | Inr res \<Rightarrow> Inr res)"

definition streamDecompress :: "(byte list \<Rightarrow> byte list list option) \<Rightarrow> byte list \<Rightarrow> js_error + byte list" where
  \<comment> \<open>\<open>_streamDecompress\<close>: write the data, close, read the chunks and join them\<close>
  "streamDecompress stream data =
     (case stream data of
        None \<Rightarrow> Inl StreamError
      | Some chunks \<Rightarrow> Inr (concat chunks))"

definition new_DecompressionStream :: "platform \<Rightarrow> string \<Rightarrow> js_error + (byte list \<Rightarrow> byte list list option)" where
  "new_DecompressionStream P format =
     (if has_DecompressionStream P then Inr (DecompressionStream P format)
      else Inl ReferenceError)"

record result =
  content :: jsstring
  metadata :: json

definition decompress_try :: "platform \<Rightarrow> compression \<Rightarrow> jsstring \<Rightarrow> js_error + result" where
  \<comment> \<open>the \<open>try\<close> block of \<open>decompress\<close>\<close>
  "decompress_try P this encodedData =
     (case decodeWithMetadata encodedData of
        Inl e \<Rightarrow> Inl e
      | Inr (data, m) \<Rightarrow>
          (case get_property m (lit ''c'') of
             Inl e \<Rightarrow> Inl e
           | Inr tag \<Rightarrow>
               if tag = Some (JString (lit ''gz'')) then
                 (if \<not> supportsGzip this
                  then Inl (Error ''Gzip decompression not supported in this browser'')
                  else case new_DecompressionStream P ''gzip'' of
                         Inl e \<Rightarrow> Inl e
                       | Inr stream \<Rightarrow>
                           (case streamDecompress stream data of
                              Inl e \<Rightarrow> Inl e
                            | Inr decompressed \<Rightarrow>
                                Inr \<lparr>content = TextDecoder_decode decompressed, metadata = m\<rparr>))
               else if tag = Some (JString (lit ''br'')) then
                 (if \<not> supportsBrotli this
                  then Inl (Error ''Brotli decompression not supported in this browser'')
                  else case new_DecompressionStream P ''deflate'' of
                         Inl e \<Rightarrow> Inl e
                       | Inr stream \<Rightarrow>
                           (case streamDecompress stream data of
                              Inl e \<Rightarrow> Inl e
                            | Inr decompressed \<Rightarrow>
                                Inr \<lparr>content = TextDecoder_decode decompressed, metadata = m\<rparr>))
               else Inr \<lparr>content = TextDecoder_decode data, metadata = m\<rparr>))"

definition decompress :: "platform \<Rightarrow> compression \<Rightarrow> jsstring \<Rightarrow> js_error + result" where
  "decompress P this encodedData =
     (case decompress_try P this encodedData of
        Inl e \<Rightarrow> Inl (Error ''Failed to decompress content'')
      | Inr res \<Rightarrow> Inr res)"


section \<open>The statistics helper\<close>

subsection \<open>\<open>getStats\<close> and \<open>_formatBytes\<close> of \<open>js/compression-fixed.js\<close>\<close>

definition Math_log :: "platform \<Rightarrow> int \<Rightarrow> jsnum" where
  \<comment> \<open>\<open>Math.log\<close> of an integer: \<open>NaN\<close> below 0, \<open>-Infinity\<close> at 0 and 0 at 1 by the
      language, and above 1 the double that the engine computes\<close>
  "Math_log P x =
     (if x < 0 then NaN
      else if x = 0 then NegInf
      else if x = 1 then Finite 0 0
      else log_double P x)"

definition formatBytes :: "platform \<Rightarrow> int \<Rightarrow> jsstring" where
  \<comment> \<open>\<open>_formatBytes(bytes)\<close>; \<open>getStats\<close> passes two sizes and their difference\<close>
  "formatBytes P bytes =
     (if bytes = 0 then lit ''0 Bytes''
      else
        (let k = 1024;
             sizes = [''Bytes'', ''KB'', ''MB'', ''GB''];
             i = Math_floor (js_div (Math_log P bytes) (Math_log P k))
         in parseFloat_text (toFixed2 (js_div (js_of_int bytes) (Math_pow k i)))
              @ lit '' '' @ array_text sizes i))"

record readable_sizes =
  original :: jsstring
  compressed :: jsstring
  saved :: jsstring

record stats =
  originalSize :: nat
  compressedSize :: nat
  ratio :: jsint
  readable :: readable_sizes

definition getStats :: "platform \<Rightarrow> jsstring \<Rightarrow> jsstring \<Rightarrow> js_error + stats" where
  \<comment> \<open>no \<open>try\<close> here: an exception of \<open>atob\<close> leaves \<open>getStats\<close> as it is\<close>
  "getStats P original_text compressed_text =
     (let originalSize = length (TextEncoder_encode original_text) in
      case atob compressed_text of
        Inl e \<Rightarrow> Inl e
      | Inr binaryStr \<Rightarrow>
          (let compressedSize = length binaryStr;
               ratio = Math_round
                 (js_mul (js_sub (js_of_int 1)
                            (js_div (js_of_int (int compressedSize)) (js_of_int (int originalSize))))
                         (js_of_int 100))
           in Inr \<lparr>originalSize = originalSize,
                   compressedSize = compressedSize,
                   ratio = ratio,
                   readable =
                     \<lparr>original = formatBytes P (int originalSize),
                      compressed = formatBytes P (int compressedSize),
                      saved = formatBytes P (int originalSize - int compressedSize)\<rparr>\<rparr>))"


section \<open>The two other versions of the class\<close>

text \<open>
  The repository holds two more versions of \<open>MakeSitesCompression\<close>: one that compresses
  with the browser's streams (\<open>_streams\<close> below) and one that uses the Pako library
  (\<open>_pako\<close>). Their \<open>_encodeWithMetadata\<close>, \<open>getStats\<close> and, for the Pako version,
  \<open>_decodeWithMetadata\<close> are those of \<open>js/compression-fixed.js\<close> line for line; their
  metadata has one more property, the ratio \<open>r\<close>.
\<close>

record metadata_r = metadata +
  r :: jsint

definition JSON_stringify_r :: "metadata_r \<Rightarrow> jsstring" where
  \<comment> \<open>a number that is not finite is written \<open>null\<close>\<close>
  "JSON_stringify_r m =
     lit ''{\"v\":'' @ Number_toString (int (v m))
     @ lit '',\"c\":'' @ QuoteJSONString (c m)
     @ lit '',\"f\":'' @ QuoteJSONString (f m)
     @ lit '',\"os\":'' @ Number_toString (int (os m))
     @ lit '',\"cs\":'' @ Number_toString (int (cs m))
     @ lit '',\"r\":'' @ (case r m of Integer n \<Rightarrow> Number_toString n | _ \<Rightarrow> lit ''null'')
     @ lit '',\"ts\":'' @ Number_toString (ts m)
     @ lit ''}''"

definition metadata_r_json :: "metadata_r \<Rightarrow> json" where
  \<comment> \<open>the object that the text of \<open>JSON_stringify_r\<close> denotes\<close>
  "metadata_r_json m =
     JObject
       [(lit ''v'', JNumber (of_nat (v m))), (lit ''c'', JString (c m)),
        (lit ''f'', JString (f m)), (lit ''os'', JNumber (of_nat (os m))),
        (lit ''cs'', JNumber (of_nat (cs m))),
        (lit ''r'', case r m of Integer n \<Rightarrow> JNumber (of_int n) | _ \<Rightarrow> JNull),
        (lit ''ts'', JNumber (of_int (ts m)))]"

definition createMetadata_r :: "jsstring \<Rightarrow> byte list \<Rightarrow> jsstring \<Rightarrow> jsstring \<Rightarrow> int \<Rightarrow> metadata_r" where
  \<comment> \<open>\<open>_createMetadata(original, compressed, compression, format)\<close> of both versions\<close>
  "createMetadata_r original_text compressed_bytes compression format now =
     \<lparr>v = 1, c = compression, f = format, os = length original_text,
      cs = length compressed_bytes, ts = now,
      r = Math_round
            (js_mul (js_sub (js_of_int 1)
                       (js_div (js_of_int (int (length compressed_bytes)))
                               (js_of_int (int (length original_text)))))
                    (js_of_int 100))\<rparr>"

definition encodeWithMetadata_r :: "platform \<Rightarrow> byte list \<Rightarrow> metadata_r \<Rightarrow> js_error + jsstring" where
  "encodeWithMetadata_r P data m =
     (let metadataStr = JSON_stringify_r m;
          metadataBytes = TextEncoder_encode metadataStr;
          lengthBytes = setUint32_le (length metadataBytes);
          combined = lengthBytes @ metadataBytes @ data
      in case String_fromCharCode (max_arguments P) combined of
           Inl e \<Rightarrow> Inl e
         | Inr binaryStr \<Rightarrow> btoa binaryStr)"

subsection \<open>The version with the browser's streams\<close>

definition MakeSitesCompression_streams :: "platform \<Rightarrow> compression" where
  "MakeSitesCompression_streams P =
     \<lparr>supportsBrotli = has_CompressionStream P, supportsGzip = has_CompressionStream P\<rparr>"

definition streamCompress :: "platform \<Rightarrow> string \<Rightarrow> jsstring \<Rightarrow> js_error + byte list" where
  \<comment> \<open>\<open>_compressBrotli\<close> and \<open>_compressGzip\<close>: write the encoded content, join the chunks\<close>
  "streamCompress P format text =
     (if has_CompressionStream P
      then Inr (concat (CompressionStream P format (TextEncoder_encode text)))
      else Inl ReferenceError)"

definition compress_streams :: "platform \<Rightarrow> compression \<Rightarrow> jsstring \<Rightarrow> jsstring \<Rightarrow> int \<Rightarrow> js_error + jsstring" where
  "compress_streams P this text format now =
     (case (if supportsBrotli this then
              (case streamCompress P ''deflate-raw'' text of
                 Inl e \<Rightarrow> Inl e
               | Inr brotliResult \<Rightarrow>
                   encodeWithMetadata_r P brotliResult
                     (createMetadata_r text brotliResult (lit ''br'') format now))
            else if supportsGzip this then
              (case streamCompress P ''gzip'' text of
                 Inl e \<Rightarrow> Inl e
               | Inr gzipResult \<Rightarrow>
                   encodeWithMetadata_r P gzipResult
                     (createMetadata_r text gzipResult (lit ''gzip'') format now))
            else
              (let encoded = TextEncoder_encode text
               in encodeWithMetadata_r P encoded
                    (createMetadata_r text encoded (lit ''none'') format now))) of
        Inl e \<Rightarrow> Inl (Error ''Failed to compress content'')
      | Inr t \<Rightarrow> Inr t)"

definition decodeWithMetadata_streams :: "jsstring \<Rightarrow> js_error + byte list \<times> json" where
  \<comment> \<open>no check of the length and no \<open>try\<close>; \<open>slice\<close> stops at the end of the array\<close>
  "decodeWithMetadata_streams encodedData =
     (case atob encodedData of
        Inl e \<Rightarrow> Inl e
      | Inr binaryStr \<Rightarrow>
          (let combined = Uint8Array_from_binary binaryStr in
           case getUint32_le combined of
             Inl e \<Rightarrow> Inl e
           | Inr metadataLength \<Rightarrow>
               (let metadataBytes = take metadataLength (drop 4 combined);
                    data = drop (4 + metadataLength) combined
                in case JSON_parse (TextDecoder_decode metadataBytes) of
                     Inl e \<Rightarrow> Inl e
                   | Inr m \<Rightarrow> Inr (data, m))))"

definition streamDecompress_text :: "platform \<Rightarrow> string \<Rightarrow> byte list \<Rightarrow> js_error + jsstring" where
  \<comment> \<open>\<open>_decompressBrotli\<close> and \<open>_decompressGzip\<close>\<close>
  "streamDecompress_text P format data =
     (case new_DecompressionStream P format of
        Inl e \<Rightarrow> Inl e
      | Inr stream \<Rightarrow>
          (case streamDecompress stream data of
             Inl e \<Rightarrow> Inl e
           | Inr decompressed \<Rightarrow> Inr (TextDecoder_decode decompressed)))"

definition decompress_streams_try :: "platform \<Rightarrow> jsstring \<Rightarrow> js_error + result" where
  \<comment> \<open>the \<open>switch\<close> reads \<open>metadata.compression\<close>, a property that \<open>_createMetadata\<close>
      does not write\<close>
  "decompress_streams_try P encodedData =
     (case decodeWithMetadata_streams encodedData of
        Inl e \<Rightarrow> Inl e
      | Inr (data, m) \<Rightarrow>
          (case get_property m (lit ''compression'') of
             Inl e \<Rightarrow> Inl e
           | Inr tag \<Rightarrow>
               if tag = Some (JString (lit ''br'')) then
                 (case streamDecompress_text P ''deflate-raw'' data of
                    Inl e \<Rightarrow> Inl e
                  | Inr text \<Rightarrow> Inr \<lparr>content = text, metadata = m\<rparr>)
               else if tag = Some (JString (lit ''gzip'')) then
                 (case streamDecompress_text P ''gzip'' data of
                    Inl e \<Rightarrow> Inl e
                  | Inr text \<Rightarrow> Inr \<lparr>content = text, metadata = m\<rparr>)
               else if tag = Some (JString (lit ''none'')) then
                 Inr \<lparr>content = TextDecoder_decode data, metadata = m\<rparr>
               else Inl (ErrorValue ''Unsupported compression: '' tag)))"

definition decompress_streams :: "platform \<Rightarrow> jsstring \<Rightarrow> js_error + result" where
  "decompress_streams P encodedData =
     (case decompress_streams_try P encodedData of
        Inl e \<Rightarrow> Inl (Error ''Failed to decompress content'')
      | Inr res \<Rightarrow> Inr res)"

subsection \<open>The version with Pako\<close>

definition compress_pako :: "platform \<Rightarrow> bool \<Rightarrow> jsstring \<Rightarrow> jsstring \<Rightarrow> int \<Rightarrow> js_error + jsstring" where
  \<comment> \<open>\<open>supportsPako\<close> is the one field of this version's object\<close>
  "compress_pako P supportsPako text format now =
     (case (if supportsPako then
              (if has_pako P
               then (let compressed_bytes = pako_gzip P text
                     in encodeWithMetadata_r P compressed_bytes
                          (createMetadata_r text compressed_bytes (lit ''gz'') format now))
               else Inl ReferenceError)
            else
              (let encoded = TextEncoder_encode text
               in encodeWithMetadata_r P encoded
                    (createMetadata_r text encoded (lit ''none'') format now))) of
        Inl e \<Rightarrow> Inl (Error ''Failed to compress content'')
      | Inr t \<Rightarrow> Inr t)"

definition decompress_pako_try :: "platform \<Rightarrow> bool \<Rightarrow> jsstring \<Rightarrow> js_error + result" where
  "decompress_pako_try P supportsPako encodedData =
     (case decodeWithMetadata encodedData of
        Inl e \<Rightarrow> Inl e
      | Inr (data, m) \<Rightarrow>
          (case get_property m (lit ''c'') of
             Inl e \<Rightarrow> Inl e
           | Inr tag \<Rightarrow>
               if tag = Some (JString (lit ''gz'')) \<or> tag = Some (JString (lit ''gzip'')) then
                 (if \<not> supportsPako
                  then Inl (Error ''Pako library not available for gzip decompression'')
                  else if \<not> has_pako P then Inl ReferenceError
                  else case pako_ungzip P data of
                         None \<Rightarrow> Inl StreamError
                       | Some text \<Rightarrow> Inr \<lparr>content = text, metadata = m\<rparr>)
               else if tag = Some (JString (lit ''br'')) then
                 (if \<not> has_DecompressionStream P
                  then Inl (Error ''Browser does not support DecompressionStream for Brotli'')
                  else case streamDecompress (DecompressionStream P ''deflate-raw'') data of
                         Inl e \<Rightarrow> Inl e
                       | Inr decompressed \<Rightarrow>
                           Inr \<lparr>content = TextDecoder_decode decompressed, metadata = m\<rparr>)
               else if tag = Some (JString (lit ''none'')) then
                 Inr \<lparr>content = TextDecoder_decode data, metadata = m\<rparr>
               else Inl (ErrorValue ''Unsupported compression type: '' tag)))"

definition decompress_pako :: "platform \<Rightarrow> bool \<Rightarrow> jsstring \<Rightarrow> js_error + result" where
  "decompress_pako P supportsPako encodedData =
     (case decompress_pako_try P supportsPako encodedData of
        Inl e \<Rightarrow> Inl (ErrorFrom ''Failed to decompress content: '' e)
      | Inr res \<Rightarrow> Inr res)"

section \<open>Concrete inputs\<close>

fun artanh_sum :: "rat \<Rightarrow> nat \<Rightarrow> rat" where
  \<comment> \<open>the series \<open>z + z^3/3 + z^5/5 + ...\<close> of \<open>artanh z\<close>, up to the power \<open>2 n + 1\<close>\<close>
  "artanh_sum z 0 = z"
| "artanh_sum z (Suc n) = artanh_sum z n + z ^ (2 * n + 3) / of_nat (2 * n + 3)"

definition rounded_log :: "int \<Rightarrow> jsnum" where
  \<comment> \<open>a logarithm for an integer \<open>x > 1\<close>: with \<open>x = 2^k y\<close> and \<open>1 \<le> y < 2\<close>,
      \<open>ln x = k ln 2 + ln y\<close>, where \<open>ln 2 = 2 artanh (1/3)\<close> and
      \<open>ln y = 2 artanh ((y - 1) / (y + 1))\<close>. Both arguments are at most \<open>1/3\<close>, so what the
      sums leave out is below \<open>2^-120\<close>. The sum is rounded to the nearest double\<close>
  "rounded_log x =
     (let k = bit_length (nat x) - 1;
          y = rat_of_int x / 2 ^ k;
          s = 2 * (rat_of_nat k * artanh_sum (1 / 3) 40 + artanh_sum ((y - 1) / (y + 1)) 40);
          (a, b) = quotient_of s
      in round_ratio a b)"

definition no_streams :: platform where
  \<comment> \<open>a browser without the stream classes and without Pako, whose calls take up to
      65536 arguments\<close>
  "no_streams =
     \<lparr>max_arguments = 65536, log_double = rounded_log,
      has_CompressionStream = False, has_DecompressionStream = False,
      CompressionStream = (\<lambda>format data. [data]),
      DecompressionStream = (\<lambda>format data. None),
      has_pako = False, pako_gzip = (\<lambda>text. []), pako_ungzip = (\<lambda>data. None)\<rparr>"


definition short_prefix :: jsstring where
  \<comment> \<open>a container of 13 bytes whose prefix announces 100 bytes of metadata: the bytes
      \<open>64 00 00 00\<close> and then \<open>{"c":"x"}\<close>\<close>
  "short_prefix = lit ''ZAAAAHsiYyI6IngifQ==''"

section \<open>What an error tells its receiver\<close>

fun names_invalid_metadata_length :: "js_error \<Rightarrow> bool" where
  \<comment> \<open>the message of the error holds the text \<open>Invalid metadata length\<close>\<close>
  "names_invalid_metadata_length (Error msg) = (take 23 msg = ''Invalid metadata length'')"
| "names_invalid_metadata_length (ErrorFrom p e) = names_invalid_metadata_length e"
| "names_invalid_metadata_length _ = False"


definition hi_transport :: jsstring where
  \<comment> \<open>the result of \<open>compress("hi", "text")\<close> at time 0\<close>
  "hi_transport =
     lit ''MgAAAHsidiI6MSwiYyI6Im5vbmUiLCJmIjoidGV4dCIsIm9zIjoyLCJjcyI6MiwidHMiOjB9aGk=''"

definition empty_transport :: jsstring where
  \<comment> \<open>the result of \<open>compress("", "text")\<close> at time 0\<close>
  "empty_transport =
     lit ''MgAAAHsidiI6MSwiYyI6Im5vbmUiLCJmIjoidGV4dCIsIm9zIjowLCJjcyI6MCwidHMiOjB9''"

definition accent_transport :: jsstring where
  \<comment> \<open>the result of \<open>compress("\\u00E9", "text")\<close> at time 0: one code unit, two bytes\<close>
  "accent_transport =
     lit ''MgAAAHsidiI6MSwiYyI6Im5vbmUiLCJmIjoidGV4dCIsIm9zIjoxLCJjcyI6MiwidHMiOjB9w6k=''"

definition bom_transport :: jsstring where
  \<comment> \<open>the result of \<open>compress("\\uFEFFA", "text")\<close> at time 0\<close>
  "bom_transport =
     lit ''MgAAAHsidiI6MSwiYyI6Im5vbmUiLCJmIjoidGV4dCIsIm9zIjoyLCJjcyI6NCwidHMiOjB977u/QQ==''"

definition zzz_transport :: jsstring where
  \<comment> \<open>a well-framed container whose metadata has \<open>c = "zzz"\<close> and whose payload is \<open>hi\<close>\<close>
  "zzz_transport =
     lit ''MQAAAHsidiI6MSwiYyI6Inp6eiIsImYiOiJ0ZXh0Iiwib3MiOjIsImNzIjoyLCJ0cyI6MH1oaQ==''"

definition hi_streams_transport :: jsstring where
  \<comment> \<open>the result of \<open>compress("hi", "text")\<close> of the version with streams at time 0, in a
      browser without \<open>CompressionStream\<close>\<close>
  "hi_streams_transport =
     lit ''OAAAAHsidiI6MSwiYyI6Im5vbmUiLCJmIjoidGV4dCIsIm9zIjoyLCJjcyI6MiwiciI6MCwidHMiOjB9aGk=''"


section \<open>Properties of the encodings\<close>

subsection \<open>Bytes and code units\<close>

lemma unat_byte_lt: "unat (b :: byte) < 256"
  using unsigned_less [of b, where 'a = nat] by simp

lemma unat_ucast_byte: "unat (ucast (b :: byte) :: code_unit) = unat b"
  using unat_byte_lt [of b] by (simp add: unsigned_ucast_eq take_bit_nat_eq_self)

lemma ucast_byte_le: "(ucast (b :: byte) :: code_unit) \<le> 0xFF"
  using unat_byte_lt [of b] by (simp add: word_le_nat_alt unat_ucast_byte)

lemma ucast_ucast_byte: "(ucast (ucast (b :: byte) :: code_unit) :: byte) = b"
  by (simp add: ucast_up_ucast_id is_up)

lemma unat_unit: "x < 65536 \<Longrightarrow> unat (of_nat x :: code_unit) = x"
  by (simp add: unat_of_nat)

lemma unat_byte: "x < 256 \<Longrightarrow> unat (of_nat x :: byte) = x"
  by (simp add: unat_of_nat)

lemma unat_bytes: "\<forall>x\<in>set xs. x < 256 \<Longrightarrow> map unat (map of_nat xs :: byte list) = xs"
  by (induction xs) (simp_all add: unat_byte del: of_nat_add of_nat_numeral)

subsection \<open>Base64\<close>

lemma b64val_b64char: "n < 64 \<Longrightarrow> b64val (b64char n) = Some n"
  unfolding b64val_def b64char_def Let_def
  by (auto simp add: unat_of_nat)

lemma b64char_not_pad: "n < 64 \<Longrightarrow> b64char n \<noteq> 0x3D"
  using b64val_b64char [of n] by (auto simp: b64val_def)

lemma b64char_not_ws: "n < 64 \<Longrightarrow> \<not> ascii_whitespace (b64char n)"
  using b64val_b64char [of n] by (auto simp: b64val_def ascii_whitespace_def)

lemma sextets_lt: "\<forall>x\<in>set xs. x < 256 \<Longrightarrow> \<forall>s\<in>set (sextets xs). s < 64"
  by (induction xs rule: sextets.induct) auto

lemma length_sextets:
  "length (sextets xs) =
     4 * (length xs div 3) + (if length xs mod 3 = 0 then 0 else length xs mod 3 + 1)"
  by (induction xs rule: sextets.induct) auto

lemma octets_sextets: "\<forall>x\<in>set xs. x < 256 \<Longrightarrow> octets (sextets xs) = xs"
proof (induction xs rule: sextets.induct)
  case (1 a b d rest)
  have "a < 256" "b < 256" "d < 256" using 1(2) by auto
  then have "[a div 4 * 4 + (a mod 4 * 16 + b div 16) div 16,
      (a mod 4 * 16 + b div 16) mod 16 * 16 + (b mod 16 * 4 + d div 64) div 4,
      (b mod 16 * 4 + d div 64) mod 4 * 64 + d mod 64] = [a, b, d]"
    by auto
  with 1 show ?case by simp
next
  case (2 a b)
  have "a < 256" "b < 256" using 2 by auto
  then show ?case by auto
next
  case (3 a)
  then show ?case by auto
next
  case 4
  then show ?case by simp
qed

lemma those_b64val: "\<forall>s\<in>set sx. s < 64 \<Longrightarrow> those (map b64val (map b64char sx)) = Some sx"
  by (induction sx) (simp_all add: b64val_b64char)

lemma strip_padding_encoded:
  assumes lt: "\<forall>s\<in>set sx. s < 64"
    and len: "length sx mod 4 = (if k = 0 then 0 else 4 - k)" and k: "k \<le> 2"
  shows "strip_padding (map b64char sx @ replicate k 0x3D) = map b64char sx"
proof -
  have nopad: "sx \<noteq> [] \<Longrightarrow> last (map b64char sx) \<noteq> 0x3D"
    using lt by (simp add: last_map b64char_not_pad)
  consider "k = 0" | "k = 1" | "k = 2" using k by linarith
  then show ?thesis
  proof cases
    case 1
    then show ?thesis using nopad by (cases "sx = []") (simp_all add: strip_padding_def)
  next
    case 2
    then have "sx \<noteq> []" using len by auto
    then show ?thesis using 2 nopad len
      by (simp add: strip_padding_def butlast_append mod_Suc)
  next
    case 3
    then have "sx \<noteq> []" using len by auto
    have r: "replicate k (0x3D :: code_unit) = [0x3D, 0x3D]"
      using 3 by (simp add: numeral_2_eq_2)
    show ?thesis unfolding r using len 3
      by (simp add: strip_padding_def butlast_append mod_Suc)
  qed
qed

lemma filter_not_ws_encoded:
  assumes "\<forall>s\<in>set sx. s < 64"
  shows "filter (\<lambda>u. \<not> ascii_whitespace u) (map b64char sx @ replicate k 0x3D)
    = map b64char sx @ replicate k 0x3D"
proof -
  have "\<forall>u\<in>set (map b64char sx @ replicate k 0x3D). \<not> ascii_whitespace u"
    using assms b64char_not_ws by (auto simp: ascii_whitespace_def)
  then show ?thesis by (simp only: filter_True)
qed

lemma atob_encoded:
  assumes "\<forall>x\<in>set xs. x < 256"
  shows "atob (map b64char (sextets xs) @ replicate ((3 - length xs mod 3) mod 3) 0x3D)
    = Inr (map of_nat xs)"
proof -
  let ?sx = "sextets xs" and ?k = "(3 - length xs mod 3) mod 3"
  have lt: "\<forall>s\<in>set ?sx. s < 64" using assms by (rule sextets_lt)
  have k: "?k \<le> 2"
    by simp
  have m: "length xs mod 3 = 0 \<or> length xs mod 3 = 1 \<or> length xs mod 3 = 2"
    by linarith
  have len: "length ?sx mod 4 = (if ?k = 0 then 0 else 4 - ?k)"
    unfolding length_sextets using m by auto
  have nz: "length ?sx mod 4 \<noteq> 1"
    unfolding length_sextets using m by auto
  show ?thesis
    unfolding atob_def filter_not_ws_encoded [OF lt] strip_padding_encoded [OF lt len k] Let_def
      those_b64val [OF lt]
    using nz by (simp add: octets_sextets [OF assms])
qed

lemma btoa_bytes:
  "btoa (binary_string bs)
    = Inr (map b64char (sextets (map unat bs)) @ replicate ((3 - length bs mod 3) mod 3) 0x3D)"
proof -
  have "\<not> (\<exists>u\<in>set (binary_string bs). 0xFF < u)"
    using ucast_byte_le by (auto simp: binary_string_def not_less)
  moreover have "map unat (binary_string bs) = map unat bs"
    by (simp add: binary_string_def unat_ucast_byte)
  moreover have "length (binary_string bs) = length bs"
    by (simp add: binary_string_def)
  ultimately show ?thesis
    unfolding btoa_def by (simp only: if_False)
qed

lemma atob_btoa:
  assumes "btoa (binary_string bs) = Inr t"
  shows "atob t = Inr (binary_string bs)"
proof -
  have t: "t = map b64char (sextets (map unat bs))
      @ replicate ((3 - length (map unat bs) mod 3) mod 3) 0x3D"
    using assms by (simp add: btoa_bytes)
  have "\<forall>x\<in>set (map unat bs). x < 256"
    using unat_byte_lt by auto
  then have "atob t = Inr (map of_nat (map unat bs))"
    unfolding t by (rule atob_encoded)
  then show ?thesis
    by (simp add: binary_string_def)
qed

lemma Uint8Array_from_binary_string:
  "Uint8Array_from_binary (binary_string bs) = bs"
  by (simp add: Uint8Array_from_binary_def binary_string_def ucast_ucast_byte comp_def)

lemma le32_sum:
  "(n::nat) mod 0x100 + n div 0x100 mod 0x100 * 0x100 + n div 0x10000 mod 0x100 * 0x10000
      + n div 0x1000000 mod 0x100 * 0x1000000 = n mod 0x100000000"
proof -
  have 1: "n mod (0x100 * 0x1000000) = 0x100 * (n div 0x100 mod 0x1000000) + n mod 0x100"
    by (rule mod_mult2_eq)
  have 2: "n div 0x100 mod (0x100 * 0x10000)
      = 0x100 * (n div 0x100 div 0x100 mod 0x10000) + n div 0x100 mod 0x100"
    by (rule mod_mult2_eq)
  have 3: "n div 0x10000 mod (0x100 * 0x100)
      = 0x100 * (n div 0x10000 div 0x100 mod 0x100) + n div 0x10000 mod 0x100"
    by (rule mod_mult2_eq)
  have d2: "n div 0x100 div 0x100 = n div 0x10000" 
    by (simp add: div_mult2_eq [symmetric])
  have d3: "n div 0x10000 div 0x100 = n div 0x1000000"
    by (simp add: div_mult2_eq [symmetric])
  from 1 2 3 show ?thesis
    unfolding d2 d3 by simp
qed

lemma getUint32_setUint32:
  "getUint32_le (setUint32_le n @ rest) = Inr (n mod 0x100000000)"
proof -
  obtain b0 b1 b2 b3 where s: "setUint32_le n = [b0, b1, b2, b3]"
    by (simp add: setUint32_le_def)
  have "map unat (setUint32_le n)
      = [n mod 0x100, n div 0x100 mod 0x100, n div 0x10000 mod 0x100, n div 0x1000000 mod 0x100]"
    unfolding setUint32_le_def by (rule unat_bytes) simp
  then have u: "unat b0 = n mod 0x100" "unat b1 = n div 0x100 mod 0x100"
      "unat b2 = n div 0x10000 mod 0x100" "unat b3 = n div 0x1000000 mod 0x100"
    unfolding s by simp_all
  show ?thesis
    unfolding s by (simp add: getUint32_le_def u le32_sum)
qed


subsection \<open>UTF-8 and UTF-16\<close>

lemma div_mod_64: "(x::nat) = x div 0x40 * 0x40 + x mod 0x40"
  by simp
lemma div_64_64: "(x::nat) div 0x40 div 0x40 = x div 0x1000"
  by (simp add: div_mult2_eq [symmetric])
lemma div_4096_64: "(x::nat) div 0x1000 div 0x40 = x div 0x40000"
  by (simp add: div_mult2_eq [symmetric])

lemma split3: "(x::nat) = x div 0x1000 * 0x1000 + x div 0x40 mod 0x40 * 0x40 + x mod 0x40"
proof -
  have "x div 0x40 = x div 0x1000 * 0x40 + x div 0x40 mod 0x40"
    using div_mod_64 [of "x div 0x40"] by (simp only: div_64_64)
  then have "x div 0x40 * 0x40 = x div 0x1000 * 0x1000 + x div 0x40 mod 0x40 * 0x40"
    by simp
  then show ?thesis using div_mod_64 [of x] by simp
qed

lemma split4: "(x::nat) = x div 0x40000 * 0x40000 + x div 0x1000 mod 0x40 * 0x1000
    + x div 0x40 mod 0x40 * 0x40 + x mod 0x40"
proof -
  have "x div 0x1000 = x div 0x40000 * 0x40 + x div 0x1000 mod 0x40"
    using div_mod_64 [of "x div 0x1000"] by (simp only: div_4096_64)
  then have "x div 0x1000 * 0x1000 = x div 0x40000 * 0x40000 + x div 0x1000 mod 0x40 * 0x1000"
    by simp
  then show ?thesis using split3 [of x] by simp
qed

lemma utf8_e0_bound: "0x800 \<le> (x::nat) \<Longrightarrow> x div 0x1000 = 0 \<Longrightarrow> 0x20 \<le> x div 0x40 mod 0x40"
  by simp
lemma utf8_ed_bound: "\<not> (0xD800 \<le> x \<and> x \<le> 0xDFFF) \<Longrightarrow> (x::nat) div 0x1000 = 0xD \<Longrightarrow> x div 0x40 mod 0x40 < 0x20"
  using split3 [of x] by linarith
lemma utf8_f0_bound: "0x10000 \<le> (x::nat) \<Longrightarrow> x div 0x40000 = 0 \<Longrightarrow> 0x10 \<le> x div 0x1000 mod 0x40"
  by simp
lemma utf8_f4_bound: "x < 0x110000 \<Longrightarrow> (x::nat) div 0x40000 = 4 \<Longrightarrow> x div 0x1000 mod 0x40 < 0x10"
  using split4 [of x] by linarith

lemma utf8_decode_bytes1:
  assumes "x < 0x80"
  shows "utf8_decode (map unat (utf8_bytes x) @ rest) = x # utf8_decode rest"
  using assms by (simp add: utf8_bytes_def unat_byte)

lemma utf8_decode_bytes2:
  assumes "0x80 \<le> x" "x < 0x800"
  shows "utf8_decode (map unat (utf8_bytes x) @ rest) = x # utf8_decode rest"
proof -
  define h where "h = x div 0x40"
  define l where "l = x mod 0x40"
  have x: "x = h * 0x40 + l" and l: "l < 0x40" and h: "2 \<le> h" "h < 0x20"
    using assms by (auto simp: h_def l_def)
  have "utf8_bytes x = map of_nat [0xC0 + h, 0x80 + l]"
    using assms by (simp add: utf8_bytes_def h_def l_def)
  moreover have "map unat (map of_nat [0xC0 + h, 0x80 + l] :: byte list) = [0xC0 + h, 0x80 + l]"
    using h l by (intro unat_bytes) simp
  ultimately have b: "map unat (utf8_bytes x) = [0xC0 + h, 0x80 + l]"
    by simp
  have "utf8_decode ([0xC0 + h, 0x80 + l] @ rest) = (h * 0x40 + l) # utf8_decode rest"
    using h l by (simp add: continuation_def)
  then show ?thesis
    unfolding b x [symmetric] .
qed

lemma utf8_decode_bytes3:
  assumes "0x800 \<le> x" "x < 0x10000" "\<not> (0xD800 \<le> x \<and> x \<le> 0xDFFF)"
  shows "utf8_decode (map unat (utf8_bytes x) @ rest) = x # utf8_decode rest"
proof -
  define h where "h = x div 0x1000"
  define m where "m = x div 0x40 mod 0x40"
  define l where "l = x mod 0x40"
  have x: "x = h * 0x1000 + m * 0x40 + l"
    unfolding h_def l_def m_def by (rule split3)
  have l: "l < 0x40" and m: "m < 0x40" and h: "h < 0x10"
    using assms by (simp_all add: h_def l_def m_def)
  have e0: "h = 0 \<Longrightarrow> 0x20 \<le> m" and ed: "h = 0xD \<Longrightarrow> m < 0x20"
    using assms utf8_e0_bound [of x] utf8_ed_bound [of x] unfolding h_def m_def by blast+
  have "utf8_bytes x = map of_nat [0xE0 + h, 0x80 + m, 0x80 + l]"
    using assms by (simp add: utf8_bytes_def h_def l_def m_def)
  moreover have "map unat (map of_nat [0xE0 + h, 0x80 + m, 0x80 + l] :: byte list)
      = [0xE0 + h, 0x80 + m, 0x80 + l]"
    using h l m by (intro unat_bytes) simp
  ultimately have b: "map unat (utf8_bytes x) = [0xE0 + h, 0x80 + m, 0x80 + l]"
    by simp
  have "utf8_decode ([0xE0 + h, 0x80 + m, 0x80 + l] @ rest)
      = (h * 0x1000 + m * 0x40 + l) # utf8_decode rest"
    using h l m e0 ed by (auto simp: continuation_def)
  then show ?thesis
    unfolding b x [symmetric] .
qed

lemma utf8_decode_bytes4:
  assumes "0x10000 \<le> x" "x < 0x110000"
  shows "utf8_decode (map unat (utf8_bytes x) @ rest) = x # utf8_decode rest"
proof -
  define h where "h = x div 0x40000"
  define n where "n = x div 0x1000 mod 0x40"
  define m where "m = x div 0x40 mod 0x40"
  define l where "l = x mod 0x40"
  have x: "x = h * 0x40000 + n * 0x1000 + m * 0x40 + l"
    unfolding h_def l_def m_def n_def by (rule split4)
  have l: "l < 0x40" and m: "m < 0x40" and n: "n < 0x40" and h: "h < 5"
    using assms by (simp_all add: h_def l_def m_def n_def)
  have e0: "h = 0 \<Longrightarrow> 0x10 \<le> n" and ed: "h = 4 \<Longrightarrow> n < 0x10"
    using assms utf8_f0_bound [of x] utf8_f4_bound [of x] unfolding h_def n_def by blast+
  have "utf8_bytes x = map of_nat [0xF0 + h, 0x80 + n, 0x80 + m, 0x80 + l]"
    using assms by (simp add: utf8_bytes_def h_def l_def m_def n_def)
  moreover have "map unat (map of_nat [0xF0 + h, 0x80 + n, 0x80 + m, 0x80 + l] :: byte list)
      = [0xF0 + h, 0x80 + n, 0x80 + m, 0x80 + l]"
    using h l m n by (intro unat_bytes) simp
  ultimately have b: "map unat (utf8_bytes x) = [0xF0 + h, 0x80 + n, 0x80 + m, 0x80 + l]"
    by simp
  have "utf8_decode ([0xF0 + h, 0x80 + n, 0x80 + m, 0x80 + l] @ rest)
      = (h * 0x40000 + n * 0x1000 + m * 0x40 + l) # utf8_decode rest"
    using h l m n e0 ed by (auto simp: continuation_def)
  then show ?thesis
    unfolding b x [symmetric] .
qed

lemma utf8_decode_bytes:
  "scalar_value x \<Longrightarrow> utf8_decode (map unat (utf8_bytes x) @ rest) = x # utf8_decode rest"
  using utf8_decode_bytes1 [of x rest] utf8_decode_bytes2 [of x rest]
    utf8_decode_bytes3 [of x rest] utf8_decode_bytes4 [of x rest]
  unfolding scalar_value_def by linarith

lemma utf8_decode_encode:
  "\<forall>x\<in>set xs. scalar_value x \<Longrightarrow> utf8_decode (map unat (concat (map utf8_bytes xs))) = xs"
  by (induction xs) (simp_all add: utf8_decode_bytes)

lemma unat_unit_lt: "unat (u :: code_unit) < 65536"
  using unsigned_less [of u, where 'a = nat] by simp

lemma surrogate_iff: "is_surrogate u \<longleftrightarrow> 0xD800 \<le> unat u \<and> unat u \<le> 0xDFFF"
  by (simp add: is_surrogate_def word_le_nat_alt)

lemma high_surrogate_iff: "is_high_surrogate u \<longleftrightarrow> 0xD800 \<le> unat u \<and> unat u \<le> 0xDBFF"
  by (simp add: is_high_surrogate_def word_le_nat_alt)

lemma low_surrogate_iff: "is_low_surrogate u \<longleftrightarrow> 0xDC00 \<le> unat u \<and> unat u \<le> 0xDFFF"
  by (simp add: is_low_surrogate_def word_le_nat_alt)

lemma scalar_single: "scalar_value (if is_surrogate u then 0xFFFD else unat u)"
  using unat_unit_lt [of u] by (simp add: scalar_value_def surrogate_iff)

lemma scalar_pair:
  assumes "is_high_surrogate u" "is_low_surrogate l"
  shows "scalar_value (0x10000 + (unat u - 0xD800) * 0x400 + (unat l - 0xDC00))"
proof -
  have "unat u - 0xD800 \<le> 0x3FF" "unat l - 0xDC00 \<le> 0x3FF"
    using assms by (auto simp: high_surrogate_iff low_surrogate_iff)
  then have "(unat u - 0xD800) * 0x400 \<le> 0x3FF * 0x400" "unat l - 0xDC00 \<le> 0x3FF"
    by simp_all
  then show ?thesis
    unfolding scalar_value_def by linarith
qed

lemma scalar_code_points: "\<forall>x\<in>set (code_points s). scalar_value x"
  by (induction s rule: code_points.induct) (simp_all add: scalar_single scalar_pair)

lemma utf16_single: "utf16_units (unat (u :: code_unit)) = [u]"
  using unat_unit_lt [of u] by (simp add: utf16_units_def)

lemma utf16_pair:
  assumes "is_high_surrogate u" "is_low_surrogate l"
  shows "utf16_units (0x10000 + (unat u - 0xD800) * 0x400 + (unat l - 0xDC00)) = [u, l]"
proof -
  define h where "h = unat u - 0xD800"
  define k where "k = unat l - 0xDC00"
  have h: "unat u = 0xD800 + h" and k: "k < 0x400" "unat l = 0xDC00 + k"
    using assms by (auto simp: h_def k_def high_surrogate_iff low_surrogate_iff)
  have d: "(h * 0x400 + k) div 0x400 = h" and m: "(h * 0x400 + k) mod 0x400 = k"
    using k(1) by simp_all
  have big: "\<not> 0x10000 + h * 0x400 + k < 0x10000"
    by simp
  have sub: "0x10000 + h * 0x400 + k - 0x10000 = h * 0x400 + k"
    by simp
  have "utf16_units (0x10000 + h * 0x400 + k)
      = [of_nat (0xD800 + h), of_nat (0xDC00 + k)]"
    unfolding utf16_units_def by (simp only: big if_False sub d m)
  also have "\<dots> = [of_nat (unat u), of_nat (unat l)]"
    by (simp only: h k(2))
  also have "\<dots> = [u, l]"
    by simp
  finally show ?thesis
    unfolding h_def k_def .
qed

lemma utf16_code_points: "well_formed s \<Longrightarrow> concat (map utf16_units (code_points s)) = s"
proof (induction s rule: code_points.induct)
  case 1
  then show ?case by simp
next
  case (2 u)
  then show ?case by (simp add: utf16_single)
next
  case (3 u l us)
  show ?case
  proof (cases "is_high_surrogate u \<and> is_low_surrogate l")
    case True
    then show ?thesis using 3 by (simp add: utf16_pair)
  next
    case False
    then show ?thesis using 3 by (auto simp: utf16_single)
  qed
qed

lemma strip_bom_code_points:
  "s = [] \<or> hd s \<noteq> 0xFEFF \<Longrightarrow> strip_bom (code_points s) = code_points s"
proof (induction s rule: code_points.induct)
  case 1
  then show ?case by (simp add: strip_bom_def)
next
  case (2 u)
  have "unat u = 0xFEFF \<Longrightarrow> u = 0xFEFF"
    by (metis of_nat_unat ucast_id of_nat_numeral)
  then show ?case using 2 by (auto simp: strip_bom_def)
next
  case (3 u l us)
  have "unat u = 0xFEFF \<Longrightarrow> u = 0xFEFF"
    by (metis of_nat_unat ucast_id of_nat_numeral)
  then show ?case using 3 by (auto simp: strip_bom_def)
qed

lemma TextDecoder_TextEncoder:
  "TextDecoder_decode (TextEncoder_encode s)
    = concat (map utf16_units (strip_bom (code_points s)))"
  by (simp add: TextDecoder_decode_def TextEncoder_encode_def utf8_decode_encode
      scalar_code_points)

lemma TextDecoder_TextEncoder_id:
  assumes "well_formed s" and "s = [] \<or> hd s \<noteq> 0xFEFF"
  shows "TextDecoder_decode (TextEncoder_encode s) = s"
  by (simp add: TextDecoder_TextEncoder strip_bom_code_points [OF assms(2)]
      utf16_code_points [OF assms(1)])


subsection \<open>Decimal digits\<close>

lemma decimal_digits_lt: "\<forall>d\<in>set (decimal_digits n). d < 10"
  by (induction n rule: decimal_digits.induct) (subst decimal_digits.simps, simp)

lemma decimal_digits_not_Nil: "decimal_digits n \<noteq> []"
  by (subst decimal_digits.simps) simp

lemma decimal_digits_hd: "10 \<le> n \<Longrightarrow> hd (decimal_digits n) \<noteq> 0"
proof (induction n rule: decimal_digits.induct)
  case (1 n)
  show ?case
  proof (cases "10 \<le> n div 10")
    case True
    then have "hd (decimal_digits (n div 10)) \<noteq> 0"
      using 1 by simp
    then show ?thesis
      using 1(2) decimal_digits_not_Nil [of "n div 10"]
      by (subst decimal_digits.simps) simp
  next
    case False
    then have "decimal_digits (n div 10) = [n div 10]"
      by (subst decimal_digits.simps) simp
    moreover have "n div 10 \<noteq> 0"
      using 1(2) by simp
    ultimately show ?thesis
      using 1(2) by (subst decimal_digits.simps) simp
  qed
qed

lemma decimal_digits_small: "n < 10 \<Longrightarrow> decimal_digits n = [n]"
  by (subst decimal_digits.simps) simp

lemma unat_digit_unit: "d < 10 \<Longrightarrow> unat (digit_unit d) = 48 + d"
  unfolding digit_unit_def by (rule unat_unit) simp

lemma is_digit_digit_unit: "d < 10 \<Longrightarrow> is_digit (digit_unit d)"
  by (simp add: is_digit_def word_le_nat_alt unat_digit_unit)

lemma digits_value_append:
  "digits_value (ds @ [d]) = digits_value ds * 10 + (unat d - 48)"
  by (simp add: digits_value_def)

lemma digits_value_decimal: "digits_value (map digit_unit (decimal_digits n)) = n"
proof (induction n rule: decimal_digits.induct)
  case (1 n)
  show ?case
  proof (cases "n < 10")
    case True
    then show ?thesis
      by (simp add: decimal_digits_small digits_value_def unat_digit_unit)
  next
    case False
    then have "decimal_digits n = decimal_digits (n div 10) @ [n mod 10]"
      by (subst decimal_digits.simps) simp
    then show ?thesis
      using 1 False by (simp add: digits_value_append unat_digit_unit)
  qed
qed

lemma takeWhile_all:
  "\<forall>x\<in>set xs. P x \<Longrightarrow> \<not> P u \<Longrightarrow> takeWhile P (xs @ u # rest) = xs"
  by (induction xs) simp_all

lemma dropWhile_all:
  "\<forall>x\<in>set xs. P x \<Longrightarrow> \<not> P u \<Longrightarrow> dropWhile P (xs @ u # rest) = u # rest"
  by (induction xs) simp_all

lemma digit_units_are_digits: "\<forall>x\<in>set (map digit_unit (decimal_digits n)). is_digit x"
  using decimal_digits_lt [of n] by (auto simp: is_digit_digit_unit)

lemma takeWhile_digits:
  "\<not> is_digit u \<Longrightarrow>
    takeWhile is_digit (map digit_unit (decimal_digits n) @ u # rest)
      = map digit_unit (decimal_digits n)"
  using digit_units_are_digits by (rule takeWhile_all)

lemma dropWhile_digits:
  "\<not> is_digit u \<Longrightarrow>
    dropWhile is_digit (map digit_unit (decimal_digits n) @ u # rest) = u # rest"
  using digit_units_are_digits by (rule dropWhile_all)

lemma no_leading_zero:
  "\<not> (1 < length (map digit_unit (decimal_digits n))
      \<and> hd (map digit_unit (decimal_digits n)) = 0x30)"
proof (cases "n < 10")
  case True
  then show ?thesis by (simp add: decimal_digits_small)
next
  case False
  then have "hd (decimal_digits n) \<noteq> 0" "hd (decimal_digits n) < 10"
    using decimal_digits_hd [of n] decimal_digits_lt [of n] decimal_digits_not_Nil [of n]
    by (simp_all add: hd_in_set)
  then have "unat (digit_unit (hd (decimal_digits n))) \<noteq> unat (0x30 :: code_unit)"
    by (simp add: unat_digit_unit)
  then have "digit_unit (hd (decimal_digits n)) \<noteq> 0x30"
    by metis
  then show ?thesis
    using decimal_digits_not_Nil [of n] by (simp add: hd_map)
qed


subsection \<open>Parsing what \<open>JSON.stringify\<close> wrote\<close>

lemma parse_digits:
  assumes "\<not> is_digit u" "u \<noteq> 0x2E" "u \<noteq> 0x65" "u \<noteq> 0x45"
  shows "parse_number (map digit_unit (decimal_digits n) @ u # rest) = Some (of_nat n, u # rest)"
proof -
  let ?ds = "map digit_unit (decimal_digits n)"
  have ne: "?ds \<noteq> []"
    using decimal_digits_not_Nil [of n] by simp
  then have "hd ?ds \<in> set ?ds"
    by (rule hd_in_set)
  then have h: "is_digit (hd ?ds)" "?ds \<noteq> []"
    using digit_units_are_digits [of n] ne by blast+
  then have "hd ?ds \<noteq> 0x2D"
    by (auto simp: is_digit_def)
  then have sign: "parse_sign (?ds @ u # rest) = (False, ?ds @ u # rest)"
    using h(2) by (cases ?ds) (simp_all add: parse_sign_def)
  have frac: "parse_fraction (u # rest) = Some ([], u # rest)"
    using assms by (simp add: parse_fraction_def)
  have ex: "parse_exponent (u # rest) = Some (0, u # rest)"
    using assms by (simp add: parse_exponent_def)
  show ?thesis
    unfolding parse_number_def sign
    using no_leading_zero [of n] h(2)
    by (simp add: takeWhile_digits [OF assms(1)] dropWhile_digits [OF assms(1)] frac ex
        digits_value_decimal Let_def)
qed

lemma parse_negative_digits:
  assumes "\<not> is_digit u" "u \<noteq> 0x2E" "u \<noteq> 0x65" "u \<noteq> 0x45"
  shows "parse_number (0x2D # map digit_unit (decimal_digits n) @ u # rest)
    = Some (- of_nat n, u # rest)"
proof -
  let ?ds = "map digit_unit (decimal_digits n)"
  have sign: "parse_sign (0x2D # ?ds @ u # rest) = (True, ?ds @ u # rest)"
    by (simp add: parse_sign_def)
  have frac: "parse_fraction (u # rest) = Some ([], u # rest)"
    using assms by (simp add: parse_fraction_def)
  have ex: "parse_exponent (u # rest) = Some (0, u # rest)"
    using assms by (simp add: parse_exponent_def)
  show ?thesis
    unfolding parse_number_def sign
    using no_leading_zero [of n] decimal_digits_not_Nil [of n]
    by (simp add: takeWhile_digits [OF assms(1)] dropWhile_digits [OF assms(1)] frac ex
        digits_value_decimal Let_def)
qed

lemma parse_Number_toString:
  assumes "\<not> is_digit u" "u \<noteq> 0x2E" "u \<noteq> 0x65" "u \<noteq> 0x45"
  shows "parse_number (Number_toString i @ u # rest) = Some (of_int i, u # rest)"
proof (cases "i < 0")
  case True
  then have "(of_int i :: rat) = - of_nat (nat \<bar>i\<bar>)"
    by simp
  then show ?thesis
    using True parse_negative_digits [OF assms, of "nat \<bar>i\<bar>" rest]
    by (simp add: Number_toString_def)
next
  case False
  then have "(of_int i :: rat) = of_nat (nat \<bar>i\<bar>)"
    by simp
  then show ?thesis
    using False parse_digits [OF assms, of "nat \<bar>i\<bar>" rest]
    by (simp add: Number_toString_def)
qed

lemma Number_toString_head:
  "\<exists>h t. Number_toString i = h # t \<and> (h = 0x2D \<or> is_digit h)"
proof (cases "i < 0")
  case True
  then show ?thesis by (simp add: Number_toString_def)
next
  case False
  obtain d ds where "decimal_digits (nat \<bar>i\<bar>) = d # ds"
    using decimal_digits_not_Nil by (cases "decimal_digits (nat \<bar>i\<bar>)") auto
  moreover from this have "d < 10"
    using decimal_digits_lt [of "nat \<bar>i\<bar>"] by simp
  ultimately show ?thesis
    using False by (simp add: Number_toString_def is_digit_digit_unit)
qed

lemma parse_value_number:
  assumes "u = 0x2C \<or> u = 0x7D"
  shows "parse_value (Suc n) (Number_toString i @ u # rest)
    = Some (JNumber (of_int i), u # rest)"
proof -
  obtain h t where ht: "Number_toString i = h # t" and h: "h = 0x2D \<or> is_digit h"
    using Number_toString_head by blast
  have u: "\<not> is_digit u" "u \<noteq> 0x2E" "u \<noteq> 0x65" "u \<noteq> 0x45"
    using assms by (auto simp: is_digit_def)
  have nws: "\<not> json_whitespace h" "h \<noteq> 0x7B" "h \<noteq> 0x5B" "h \<noteq> 0x22"
    using h by (auto simp: json_whitespace_def is_digit_def)
  have "parse_number (h # t @ u # rest) = Some (of_int i, u # rest)"
    using parse_Number_toString [OF u, of i rest] by (simp add: ht)
  then show ?thesis
    using nws h by (simp add: ht skip_ws_def)
qed

lemma hex_value_hex_digit: "d < 16 \<Longrightarrow> hex_value (hex_digit d) = Some d"
  unfolding hex_value_def hex_digit_def Let_def
  by (auto simp: unat_of_nat)

lemma hex_sum:
  "(n::nat) div 0x1000 * 0x1000 + n div 0x100 mod 0x10 * 0x100 + n div 0x10 mod 0x10 * 0x10
     + n mod 0x10 = n"
proof -
  have 1: "n = n div 0x10 * 0x10 + n mod 0x10"
    by simp
  have 2: "n div 0x10 = n div 0x10 div 0x10 * 0x10 + n div 0x10 mod 0x10"
    by simp
  have 3: "n div 0x100 = n div 0x100 div 0x10 * 0x10 + n div 0x100 mod 0x10"
    by simp
  have d2: "n div 0x10 div 0x10 = n div 0x100"
    by (simp add: div_mult2_eq [symmetric])
  have d3: "n div 0x100 div 0x10 = n div 0x1000"
    by (simp add: div_mult2_eq [symmetric])
  from 1 2 3 show ?thesis
    unfolding d2 d3 by linarith
qed

lemma hex4_unicode_escape:
  "hex4 (hex_digit (unat u div 0x1000)) (hex_digit (unat u div 0x100 mod 0x10))
     (hex_digit (unat u div 0x10 mod 0x10)) (hex_digit (unat u mod 0x10)) = Some u"
proof -
  have "unat u div 0x1000 < 16"
    using unat_unit_lt [of u] by simp
  then show ?thesis
    unfolding hex4_def
    by (simp add: hex_value_hex_digit hex_sum del: of_nat_add of_nat_mult)
qed

lemma parse_string_unicode_escape:
  "parse_string (unicode_escape u @ rest) = cons_result u (parse_string rest)"
  by (simp add: unicode_escape_def hex4_unicode_escape)

lemma parse_string_raw:
  "u \<noteq> 0x22 \<Longrightarrow> u \<noteq> 0x5C \<Longrightarrow> \<not> u < 0x20 \<Longrightarrow>
    parse_string (u # rest) = cons_result u (parse_string rest)"
  by simp

lemma parse_string_quote_unit:
  "parse_string (quote_unit u @ rest) = cons_result u (parse_string rest)"
proof -
  consider "u = 0x08" | "u = 0x09" | "u = 0x0A" | "u = 0x0C" | "u = 0x0D" | "u = 0x22"
    | "u = 0x5C"
    | "u \<notin> {0x08, 0x09, 0x0A, 0x0C, 0x0D, 0x22, 0x5C}" "u < 0x20 \<or> is_surrogate u"
    | "u \<notin> {0x08, 0x09, 0x0A, 0x0C, 0x0D, 0x22, 0x5C}" "\<not> (u < 0x20 \<or> is_surrogate u)"
    by blast
  then show ?thesis
  proof cases
    case 8
    then show ?thesis
      by (simp add: quote_unit_def parse_string_unicode_escape)
  next
    case 9
    then show ?thesis
      by (simp add: quote_unit_def)
  qed (simp_all add: quote_unit_def simple_escape_def)
qed

lemma surrogate_raw:
  assumes "is_high_surrogate u \<or> is_low_surrogate u"
  shows "u \<noteq> 0x22" "u \<noteq> 0x5C" "\<not> u < 0x20"
  using assms by (auto simp: high_surrogate_iff low_surrogate_iff word_less_nat_alt)

lemma parse_string_quote_body:
  "parse_string (quote_body x @ rest)
    = (case parse_string rest of None \<Rightarrow> None | Some (s, rest1) \<Rightarrow> Some (x @ s, rest1))"
proof (induction x rule: quote_body.induct)
  case 1
  then show ?case by (simp split: option.splits)
next
  case (2 u)
  then show ?case
    by (simp add: parse_string_quote_unit cons_result_def split: option.splits)
next
  case (3 u l us)
  show ?case
  proof (cases "is_high_surrogate u \<and> is_low_surrogate l")
    case True
    then have "parse_string (u # l # quote_body us @ rest)
        = cons_result u (cons_result l (parse_string (quote_body us @ rest)))"
      using surrogate_raw [of u] surrogate_raw [of l] by simp
    then show ?thesis
      using True 3 by (simp add: cons_result_def split: option.splits)
  next
    case False
    then show ?thesis
      using 3 by (auto simp: parse_string_quote_unit cons_result_def split: option.splits)
  qed
qed

lemma parse_string_quoted:
  "parse_string (quote_body x @ 0x22 # rest) = Some (x, rest)"
  by (simp add: parse_string_quote_body)

lemma high_is_surrogate: "is_high_surrogate u \<Longrightarrow> is_surrogate u"
  by (simp add: surrogate_iff high_surrogate_iff)

lemma digit_not_surrogate: "is_digit u \<Longrightarrow> \<not> is_surrogate u"
  by (simp add: surrogate_iff is_digit_def word_le_nat_alt)

lemma well_formed_append: "well_formed a \<Longrightarrow> well_formed b \<Longrightarrow> well_formed (a @ b)"
proof (induction a rule: well_formed.induct)
  case 1
  then show ?case by simp
next
  case (2 u)
  then show ?case using high_is_surrogate [of u] by (cases b) auto
next
  case (3 u l us)
  then show ?case by (auto split: if_splits)
qed

lemma well_formed_no_surrogates: "\<forall>u\<in>set s. \<not> is_surrogate u \<Longrightarrow> well_formed s"
proof (induction s rule: well_formed.induct)
  case 1
  then show ?case by simp
next
  case (2 u)
  then show ?case by simp
next
  case (3 u l us)
  then show ?case using high_is_surrogate [of u] by auto
qed

lemma hex_digit_ascii: "d < 16 \<Longrightarrow> \<not> is_surrogate (hex_digit d)"
  by (simp add: hex_digit_def surrogate_iff unat_of_nat)

lemma well_formed_quote_unit: "well_formed (quote_unit u)"
proof -
  have "unat u div 0x1000 < 16"
    using unat_unit_lt [of u] by simp
  then have "\<forall>x\<in>set (unicode_escape u). \<not> is_surrogate x"
    by (simp add: unicode_escape_def hex_digit_ascii) (simp add: is_surrogate_def)
  then have "well_formed (unicode_escape u)"
    by (rule well_formed_no_surrogates)
  then show ?thesis
    by (simp add: quote_unit_def is_surrogate_def is_high_surrogate_def)
qed

lemma well_formed_quote_body: "well_formed (quote_body x)"
  by (induction x rule: quote_body.induct)
    (simp_all add: well_formed_quote_unit well_formed_append)

lemma well_formed_QuoteJSONString: "well_formed (QuoteJSONString x)"
proof -
  have "well_formed ([0x22] @ quote_body x @ [0x22])"
    by (intro well_formed_append well_formed_quote_body) (simp_all add: is_surrogate_def)
  then show ?thesis
    by (simp add: QuoteJSONString_def)
qed

lemma well_formed_Number_toString: "well_formed (Number_toString i)"
proof -
  have "\<forall>u\<in>set (map digit_unit (decimal_digits (nat \<bar>i\<bar>))). \<not> is_surrogate u"
    using digit_units_are_digits [of "nat \<bar>i\<bar>"] digit_not_surrogate
    by blast
  then have "\<forall>u\<in>set (Number_toString i). \<not> is_surrogate u"
    by (auto simp: Number_toString_def is_surrogate_def)
  then show ?thesis
    by (rule well_formed_no_surrogates)
qed

lemma well_formed_lit:
  "well_formed (lit ''{\"v\":'')" "well_formed (lit '',\"c\":'')" "well_formed (lit '',\"f\":'')"
  "well_formed (lit '',\"os\":'')" "well_formed (lit '',\"cs\":'')" "well_formed (lit '',\"ts\":'')"
  "well_formed (lit ''}'')" "well_formed (lit '',\"r\":'')" "well_formed (lit ''null'')"
  by (simp_all add: lit_def is_surrogate_def is_high_surrogate_def)

lemma well_formed_JSON_stringify: "well_formed (JSON_stringify m)"
  unfolding JSON_stringify_def
  by (intro well_formed_append well_formed_lit well_formed_QuoteJSONString
      well_formed_Number_toString)

lemma hd_JSON_stringify: "JSON_stringify m \<noteq> [] \<and> hd (JSON_stringify m) = 0x7B"
  by (simp add: JSON_stringify_def lit_def)

lemma TextDecoder_metadata:
  "TextDecoder_decode (TextEncoder_encode (JSON_stringify m)) = JSON_stringify m"
  using hd_JSON_stringify [of m]
  by (intro TextDecoder_TextEncoder_id well_formed_JSON_stringify) simp

lemma parse_value_object:
  "parse_value (Suc n) (0x7B # 0x22 # rest)
    = (case parse_members n (0x22 # rest) of
         None \<Rightarrow> None
       | Some (kvs, rest1) \<Rightarrow> Some (JObject kvs, rest1))"
  by (simp add: skip_ws_def json_whitespace_def)

lemma parse_value_string:
  "parse_value (Suc n) (0x22 # quote_body x @ 0x22 # rest) = Some (JString x, rest)"
  by (simp add: skip_ws_def json_whitespace_def parse_string_quoted)

lemma parse_value_number_comma:
  "parse_value (Suc n) (Number_toString i @ 0x2C # rest) = Some (JNumber (of_int i), 0x2C # rest)"
  by (rule parse_value_number) simp

lemma parse_value_number_brace:
  "parse_value (Suc n) (Number_toString i @ 0x7D # rest) = Some (JNumber (of_int i), 0x7D # rest)"
  by (rule parse_value_number) simp

lemma parse_metadata_text:
  "parse_value (Suc (Suc (Suc (Suc (Suc (Suc (Suc (Suc n)))))))) (JSON_stringify m)
    = Some (metadata_json m, [])"
  by (simp add: JSON_stringify_def lit_def QuoteJSONString_def metadata_json_def
      skip_ws_def json_whitespace_def cons_result_def
      parse_value_object parse_value_string parse_value_number_comma parse_value_number_brace
      del: parse_value.simps)

lemma JSON_parse_stringify: "JSON_parse (JSON_stringify m) = Inr (metadata_json m)"
proof -
  have "3 \<le> length (JSON_stringify m)"
    by (simp add: JSON_stringify_def lit_def)
  then have "2 * length (JSON_stringify m) + 2
      = Suc (Suc (Suc (Suc (Suc (Suc (Suc (Suc (2 * length (JSON_stringify m) - 6))))))))"
    by simp
  then show ?thesis
    unfolding JSON_parse_def by (simp only: parse_metadata_text) (simp add: skip_ws_def)
qed


subsection \<open>Numbers\<close>

lemma js_of_int_small: "\<bar>i\<bar> < 2 ^ 53 \<Longrightarrow> js_of_int i = Finite i 0"
  by (simp add: js_of_int_def round53_def)

lemma bit_length_lower: "0 < n \<Longrightarrow> (2::nat) ^ (bit_length n - 1) \<le> n"
proof (induction n rule: bit_length.induct)
  case (1 n)
  show ?case
  proof (cases "n div 2 = 0")
    case True
    then have "n = 1" using 1(2) by linarith
    then show ?thesis
      by (simp add: bit_length.simps)
  next
    case False
    then have ih: "2 ^ (bit_length (n div 2) - 1) \<le> n div 2"
      using 1 by simp
    have pos: "0 < bit_length (n div 2)"
      using False by (subst bit_length.simps) simp
    have "bit_length n = Suc (bit_length (n div 2))"
      using 1(2) by (subst bit_length.simps) simp
    then have "(2::nat) ^ (bit_length n - 1) = 2 * 2 ^ (bit_length (n div 2) - 1)"
      using pos by (cases "bit_length (n div 2)") simp_all
    then show ?thesis
      using ih by simp
  qed
qed

lemma round53_positive:
  assumes "0 < m"
  shows "\<exists>m' e'. round53 m e = Finite m' e' \<and> 0 < m'"
proof (cases "\<bar>m\<bar> < 2 ^ 53")
  case True
  then show ?thesis using assms by (simp add: round53_def)
next
  case False
  define k where "k = bit_length (nat \<bar>m\<bar>) - 53"
  have "2 ^ (bit_length (nat \<bar>m\<bar>) - 1) \<le> nat \<bar>m\<bar>"
    using assms by (intro bit_length_lower) simp
  moreover have "(2::nat) ^ k \<le> 2 ^ (bit_length (nat \<bar>m\<bar>) - 1)"
    unfolding k_def by (intro power_increasing) simp_all
  ultimately have "2 ^ k \<le> nat \<bar>m\<bar>"
    by linarith
  then have "(2::int) ^ k \<le> \<bar>m\<bar>"
    by (metis le_nat_iff abs_ge_zero of_nat_numeral of_nat_power)
  then have "0 < \<bar>m\<bar> div 2 ^ (bit_length (nat \<bar>m\<bar>) - 53)"
    unfolding k_def by (simp add: pos_imp_zdiv_pos_iff)
  then show ?thesis
    using False assms by (auto simp: round53_def Let_def)
qed

lemma js_of_int_positive: "0 < i \<Longrightarrow> \<exists>m e. js_of_int i = Finite m e \<and> 0 < m"
  unfolding js_of_int_def by (rule round53_positive)

lemma js_div_NaN: "js_div x NaN = NaN"
  by (cases x) (simp_all add: js_div_def)

lemma NaN_js_div: "js_div NaN y = NaN"
  by (simp add: js_div_def)

lemma Math_log_negative: "d < 0 \<Longrightarrow> Math_log P d = NaN"
  by (simp add: Math_log_def)

lemma formatBytes_negative: "d < 0 \<Longrightarrow> formatBytes P d = lit ''NaN undefined''"
  by (simp add: formatBytes_def Math_log_negative NaN_js_div Math_floor_def Math_pow_def
      js_div_NaN toFixed2_def parseFloat_text_def array_text_def lit_def)

lemma ratio_of_empty:
  "Math_round (js_mul (js_sub (js_of_int 1) (js_div (js_of_int (int n)) (js_of_int (int 0))))
      (js_of_int 100)) = (if n = 0 then INaN else INegInf)"
proof (cases "n = 0")
  case True
  then show ?thesis
    by (simp add: js_of_int_small js_div_def js_sub_def js_mul_def Math_round_def)
next
  case False
  then obtain m e where "js_of_int (int n) = Finite m e" "0 < m"
    using js_of_int_positive [of "int n"] by auto
  then show ?thesis
    using False
    by (simp add: js_of_int_small js_div_def js_sub_def js_mul_def Math_round_def)
qed

lemmas eval_number = js_of_int_def round53_def round_ratio_def js_div_def js_sub_def js_mul_def
  Math_round_def Let_def bit_length.simps

lemma ratio_example:
  "Math_round (js_mul (js_sub (js_of_int 1) (js_div (js_of_int 56) (js_of_int 2))) (js_of_int 100))
    = Integer (- 2700)"
  by (simp add: eval_number)

lemma ratio_rounding_example:
  "Math_round (js_mul (js_sub (js_of_int 1) (js_div (js_of_int 187) (js_of_int 200)))
      (js_of_int 100)) = Integer 6"
  by (simp add: eval_number)


section \<open>Properties of the codec\<close>

subsection \<open>Framing\<close>

lemma length_binary_string: "length (binary_string bs) = length bs"
  by (simp add: binary_string_def)

lemma encodeWithMetadata_Inr:
  assumes "encodeWithMetadata Q data m = Inr t"
  shows "btoa (binary_string
       (setUint32_le (length (TextEncoder_encode (JSON_stringify m)))
        @ TextEncoder_encode (JSON_stringify m) @ data)) = Inr t
    \<and> 4 + length (TextEncoder_encode (JSON_stringify m)) + length data \<le> max_arguments Q"
  using assms
  by (simp add: encodeWithMetadata_def String_fromCharCode_def Let_def setUint32_le_def
      split: if_splits)

lemma encodeWithMetadata_succeeds:
  assumes "4 + length (TextEncoder_encode (JSON_stringify m)) + length data \<le> max_arguments Q"
  shows "\<exists>t. encodeWithMetadata Q data m = Inr t"
  using assms
  by (simp add: encodeWithMetadata_def String_fromCharCode_def Let_def setUint32_le_def
      btoa_bytes)

lemma encodeWithMetadata_fails:
  assumes "max_arguments Q < 4 + length (TextEncoder_encode (JSON_stringify m)) + length data"
  shows "encodeWithMetadata Q data m = Inl RangeError"
  using assms
  by (simp add: encodeWithMetadata_def String_fromCharCode_def Let_def setUint32_le_def)

lemma atob_encodeWithMetadata:
  assumes "encodeWithMetadata Q data m = Inr t"
  shows "atob t = Inr (binary_string
       (setUint32_le (length (TextEncoder_encode (JSON_stringify m)))
        @ TextEncoder_encode (JSON_stringify m) @ data))"
  using encodeWithMetadata_Inr [OF assms] by (intro atob_btoa) simp

lemma length_setUint32_le: "length (setUint32_le n) = 4"
  by (simp add: setUint32_le_def)

lemma decodeWithMetadata_try_invalid_length:
  assumes "atob encodedData = Inr binaryStr"
    and "getUint32_le (Uint8Array_from_binary binaryStr) = Inr n"
    and "length binaryStr - 4 < n"
  shows "decodeWithMetadata_try encodedData
    = Inl (Error (''Invalid metadata length: '' @ show_decimal n))"
proof -
  have "4 \<le> length binaryStr"
    using assms(2) by (auto simp: getUint32_le_def Uint8Array_from_binary_def split: list.splits)
  then have "int n > int (length (Uint8Array_from_binary binaryStr)) - 4"
    using assms(3) by (simp add: Uint8Array_from_binary_def)
  then show ?thesis
    using assms(1,2) by (simp add: decodeWithMetadata_try_def Let_def)
qed


subsection \<open>Decoding what was encoded\<close>

lemma decodeWithMetadata_try_encoded:
  assumes "encodeWithMetadata Q data m = Inr t"
    and "length (TextEncoder_encode (JSON_stringify m)) < 2 ^ 32"
  shows "decodeWithMetadata_try t = Inr (data, metadata_json m)"
proof -
  let ?mb = "TextEncoder_encode (JSON_stringify m)"
  let ?bytes = "setUint32_le (length ?mb) @ ?mb @ data"
  have a: "atob t = Inr (binary_string ?bytes)"
    using assms(1) by (rule atob_encodeWithMetadata)
  have b: "Uint8Array_from_binary (binary_string ?bytes) = ?bytes"
    by (rule Uint8Array_from_binary_string)
  have g: "getUint32_le ?bytes = Inr (length ?mb)"
    using assms(2) by (simp add: getUint32_setUint32)
  have tk: "take (length ?mb) (drop 4 ?bytes) = ?mb"
    by (simp add: length_setUint32_le)
  have dr: "drop (4 + length ?mb) ?bytes = data"
    by (simp add: length_setUint32_le)
  have ok: "\<not> (int (length ?mb) > int (length ?bytes) - 4 \<or> int (length ?mb) < 0)"
    by (simp add: length_setUint32_le)
  show ?thesis
    unfolding decodeWithMetadata_try_def
    by (simp add: a b g length_setUint32_le TextDecoder_metadata JSON_parse_stringify)
qed

lemma decodeWithMetadata_encoded:
  assumes "encodeWithMetadata Q data m = Inr t"
    and "length (TextEncoder_encode (JSON_stringify m)) < 2 ^ 32"
  shows "decodeWithMetadata t = Inr (data, metadata_json m)"
  by (simp add: decodeWithMetadata_def decodeWithMetadata_try_encoded [OF assms])

lemma get_property_metadata_c:
  "get_property (metadata_json m) (lit ''c'') = Inr (Some (JString (c m)))"
  by (simp add: get_property_def metadata_json_def lit_def)

lemma decompress_try_encoded:
  assumes "encodeWithMetadata Q data m = Inr t"
    and "length (TextEncoder_encode (JSON_stringify m)) < 2 ^ 32"
    and "c m \<noteq> lit ''gz''" and "c m \<noteq> lit ''br''"
  shows "decompress_try P this t
    = Inr \<lparr>content = TextDecoder_decode data, metadata = metadata_json m\<rparr>"
  using assms(3,4)
  by (simp add: decompress_try_def decodeWithMetadata_encoded [OF assms(1,2)]
      get_property_metadata_c)

lemma decompress_encoded:
  assumes "encodeWithMetadata Q data m = Inr t"
    and "length (TextEncoder_encode (JSON_stringify m)) < 2 ^ 32"
    and "c m \<noteq> lit ''gz''" and "c m \<noteq> lit ''br''"
  shows "decompress P this t
    = Inr \<lparr>content = TextDecoder_decode data, metadata = metadata_json m\<rparr>"
  by (simp add: decompress_def decompress_try_encoded [OF assms])

lemma compress_Inr:
  assumes "compress Q this text format now = Inr t"
  shows "encodeWithMetadata Q (TextEncoder_encode text) (compress_metadata text format now)
    = Inr t"
  using assms by (simp add: compress_def Let_def split: sum.splits)

lemma compress_succeeds:
  assumes "4 + length (TextEncoder_encode (JSON_stringify (compress_metadata text format now)))
      + length (TextEncoder_encode text) \<le> max_arguments Q"
  shows "\<exists>t. compress Q this text format now = Inr t"
  using encodeWithMetadata_succeeds [OF assms] by (auto simp: compress_def Let_def)

lemma compress_fails:
  assumes "max_arguments Q
      < 4 + length (TextEncoder_encode (JSON_stringify (compress_metadata text format now)))
        + length (TextEncoder_encode text)"
  shows "compress Q this text format now = Inl (Error ''Failed to compress content'')"
  by (simp add: compress_def Let_def encodeWithMetadata_fails [OF assms])

lemma compress_metadata_c: "c (compress_metadata text format now) = lit ''none''"
  by (simp add: compress_metadata_def Let_def)

lemma none_is_no_codec: "lit ''none'' \<noteq> lit ''gz''" "lit ''none'' \<noteq> lit ''br''"
  by (simp_all add: lit_def)

lemma decompress_compress:
  assumes "compress Q this text format now = Inr t"
    and "length (TextEncoder_encode (JSON_stringify (compress_metadata text format now)))
      < 2 ^ 32"
  shows "decompress P this' t
    = Inr \<lparr>content = TextDecoder_decode (TextEncoder_encode text),
           metadata = metadata_json (compress_metadata text format now)\<rparr>"
  by (rule decompress_encoded [OF compress_Inr [OF assms(1)] assms(2)])
    (simp_all add: compress_metadata_c none_is_no_codec)

lemma round_trip_without_byte_order_mark:
  assumes "compress Q this text format now = Inr t"
    and "well_formed text" and "text = [] \<or> hd text \<noteq> 0xFEFF"
    and "length (TextEncoder_encode (JSON_stringify (compress_metadata text format now)))
      < 2 ^ 32"
  shows "decompress P this' t
      = Inr \<lparr>content = text, metadata = metadata_json (compress_metadata text format now)\<rparr>"
  using decompress_compress [OF assms(1,4), of P this']
  by (simp add: TextDecoder_TextEncoder_id [OF assms(2,3)])


subsection \<open>A length prefix that exceeds the buffer\<close>

lemma atob_short_prefix:
  "atob short_prefix
    = Inr [0x64, 0, 0, 0, 0x7B, 0x22, 0x63, 0x22, 0x3A, 0x22, 0x78, 0x22, 0x7D]"
  by (simp add: short_prefix_def atob_def lit_def ascii_whitespace_def strip_padding_def
      b64val_def Let_def)

lemma getUint32_short_prefix:
  "getUint32_le (Uint8Array_from_binary
      [0x64, 0, 0, 0, 0x7B, 0x22, 0x63, 0x22, 0x3A, 0x22, 0x78, 0x22, 0x7D]) = Inr 100"
  by (simp add: getUint32_le_def Uint8Array_from_binary_def)

lemma decodeWithMetadata_invalid_length:
  assumes "atob encodedData = Inr binaryStr"
    and "getUint32_le (Uint8Array_from_binary binaryStr) = Inr n"
    and "length binaryStr - 4 < n"
  shows "decodeWithMetadata encodedData
    = Inl (ErrorFrom ''Failed to decode metadata: ''
            (Error (''Invalid metadata length: '' @ show_decimal n)))"
  using decodeWithMetadata_try_invalid_length [OF assms]
  by (simp add: decodeWithMetadata_def)

text \<open>
  C3, as the code has it. When the four-byte prefix of the decoded input announces more
  metadata bytes than follow it, \<open>_decodeWithMetadata\<close> throws
  \<open>Failed to decode metadata: Invalid metadata length: n\<close> and slices nothing. \<open>decompress\<close>
  of \<open>js/compression-fixed.js\<close> catches that and rejects with
  \<open>Failed to decompress content\<close>, whatever the cause was; \<open>decompress\<close> of the Pako version
  rejects with a message that ends in the cause.
\<close>

theorem invalid_metadata_length_rejected:
  assumes "atob encodedData = Inr binaryStr"
    and "getUint32_le (Uint8Array_from_binary binaryStr) = Inr n"
    and "length binaryStr - 4 < n"
  shows "decodeWithMetadata encodedData
      = Inl (ErrorFrom ''Failed to decode metadata: ''
              (Error (''Invalid metadata length: '' @ show_decimal n)))
    \<and> decompress P this encodedData = Inl (Error ''Failed to decompress content'')
    \<and> decompress_pako P supportsPako encodedData
      = Inl (ErrorFrom ''Failed to decompress content: ''
              (ErrorFrom ''Failed to decode metadata: ''
                (Error (''Invalid metadata length: '' @ show_decimal n))))"
  using decodeWithMetadata_invalid_length [OF assms]
  by (simp add: decompress_def decompress_try_def decompress_pako_def decompress_pako_try_def)

theorem invalid_metadata_length_rejected_witness:
  "atob short_prefix
      = Inr [0x64, 0, 0, 0, 0x7B, 0x22, 0x63, 0x22, 0x3A, 0x22, 0x78, 0x22, 0x7D]
    \<and> getUint32_le (Uint8Array_from_binary
          [0x64, 0, 0, 0, 0x7B, 0x22, 0x63, 0x22, 0x3A, 0x22, 0x78, 0x22, 0x7D]) = Inr 100
    \<and> length [0x64 :: code_unit, 0, 0, 0, 0x7B, 0x22, 0x63, 0x22, 0x3A, 0x22, 0x78, 0x22, 0x7D] - 4
        < (100 :: nat)
    \<and> decodeWithMetadata short_prefix
      = Inl (ErrorFrom ''Failed to decode metadata: ''
              (Error (''Invalid metadata length: '' @ show_decimal 100)))
    \<and> decompress no_streams (MakeSitesCompression no_streams) short_prefix
      = Inl (Error ''Failed to decompress content'')
    \<and> decompress_pako no_streams False short_prefix
      = Inl (ErrorFrom ''Failed to decompress content: ''
              (ErrorFrom ''Failed to decode metadata: ''
                (Error (''Invalid metadata length: '' @ show_decimal 100))))"
proof -
  have len: "length [0x64 :: code_unit, 0, 0, 0, 0x7B, 0x22, 0x63, 0x22, 0x3A, 0x22, 0x78, 0x22, 0x7D] - 4
      < (100 :: nat)"
    by simp
  show ?thesis
    using invalid_metadata_length_rejected [OF atob_short_prefix getUint32_short_prefix len,
        of no_streams "MakeSitesCompression no_streams" False]
      atob_short_prefix getUint32_short_prefix len
    by blast
qed

text \<open>
  C3 as the specification states it fails: for the input \<open>short_prefix\<close> the error that
  \<open>decompress\<close> rejects with does not name the metadata length; it is the error of an input
  that is no base64 at all.
\<close>

theorem decompress_error_is_generic:
  "(case decompress no_streams (MakeSitesCompression no_streams) short_prefix of
      Inl e \<Rightarrow> \<not> names_invalid_metadata_length e
    | Inr res \<Rightarrow> False)
   \<and> decompress no_streams (MakeSitesCompression no_streams) short_prefix
     = decompress no_streams (MakeSitesCompression no_streams) (lit ''!'')"
proof -
  have len: "length [0x64 :: code_unit, 0, 0, 0, 0x7B, 0x22, 0x63, 0x22, 0x3A, 0x22, 0x78, 0x22, 0x7D] - 4
      < (100 :: nat)"
    by simp
  have a: "decompress no_streams (MakeSitesCompression no_streams) short_prefix
      = Inl (Error ''Failed to decompress content'')"
    using decodeWithMetadata_invalid_length [OF atob_short_prefix getUint32_short_prefix len]
    by (simp add: decompress_def decompress_try_def)
  have "atob (lit ''!'') = Inl InvalidCharacterError"
    by (simp add: atob_def lit_def ascii_whitespace_def strip_padding_def b64val_def Let_def)
  then have b: "decompress no_streams (MakeSitesCompression no_streams) (lit ''!'')
      = Inl (Error ''Failed to decompress content'')"
    by (simp add: decompress_def decompress_try_def decodeWithMetadata_def
        decodeWithMetadata_try_def)
  show ?thesis
    unfolding a b by simp
qed


section \<open>Concrete inputs, evaluated\<close>

lemma max_arguments_no_streams: "max_arguments no_streams = 65536"
  by (simp add: no_streams_def)

lemmas eval_text = lit_def JSON_stringify_def Number_toString_def QuoteJSONString_def
  quote_unit_def is_surrogate_def is_high_surrogate_def is_low_surrogate_def
  TextEncoder_encode_def utf8_bytes_def decimal_digits.simps digit_unit_def Let_def

lemma hi_metadata_bytes:
  "TextEncoder_encode (JSON_stringify \<lparr>v = 1, c = lit ''none'', f = lit ''text'', os = 2, cs = 2, ts = 0\<rparr>)
    = [123, 34, 118, 34, 58, 49, 44, 34, 99, 34, 58, 34, 110, 111, 110, 101, 34, 44, 34, 102, 34, 58, 34, 116, 101, 120, 116, 34, 44, 34, 111, 115, 34, 58, 50, 44, 34, 99, 115, 34, 58, 50, 44, 34, 116, 115, 34, 58, 48, 125]"
  by (simp add: eval_text)

lemma hi_btoa:
  "btoa (binary_string
     [50, 0, 0, 0, 123, 34, 118, 34, 58, 49, 44, 34, 99, 34, 58, 34, 110, 111, 110, 101, 34, 44, 34, 102, 34, 58, 34, 116, 101, 120, 116, 34, 44, 34, 111, 115, 34, 58, 50, 44, 34, 99, 115, 34, 58, 50, 44, 34, 116, 115, 34, 58, 48, 125, 104, 105])
    = Inr hi_transport"
  by code_simp

lemma hi_encoded:
  "56 \<le> max_arguments Q \<Longrightarrow>
    encodeWithMetadata Q [104, 105] \<lparr>v = 1, c = lit ''none'', f = lit ''text'', os = 2, cs = 2, ts = 0\<rparr> = Inr hi_transport"
  unfolding encodeWithMetadata_def Let_def hi_metadata_bytes
  by (simp add: setUint32_le_def String_fromCharCode_def hi_btoa)

lemma hi_encoded_no_streams:
  "encodeWithMetadata no_streams [104, 105] \<lparr>v = 1, c = lit ''none'', f = lit ''text'', os = 2, cs = 2, ts = 0\<rparr> = Inr hi_transport"
  by (rule hi_encoded) (simp add: max_arguments_no_streams)

lemma hi_compress_metadata:
  "compress_metadata (lit ''hi'') (lit ''text'') 0 = \<lparr>v = 1, c = lit ''none'', f = lit ''text'', os = 2, cs = 2, ts = 0\<rparr>"
  by (simp add: compress_metadata_def eval_text)

lemma hi_payload: "TextEncoder_encode (lit ''hi'') = [104, 105]"
  by (simp add: eval_text)

lemma hi_compress:
  "56 \<le> max_arguments Q \<Longrightarrow>
    compress Q this (lit ''hi'') (lit ''text'') 0 = Inr hi_transport"
  using hi_encoded [of Q]
  unfolding compress_def Let_def hi_compress_metadata hi_payload
  by simp

lemma hi_compress_no_streams:
  "compress no_streams this (lit ''hi'') (lit ''text'') 0 = Inr hi_transport"
  by (rule hi_compress) (simp add: max_arguments_no_streams)

lemma hi_in_range:
  "length (TextEncoder_encode (JSON_stringify (compress_metadata (lit ''hi'') (lit ''text'') 0)))
    < 2 ^ 32"
  unfolding hi_compress_metadata hi_metadata_bytes
  by simp

lemma empty_metadata_bytes:
  "TextEncoder_encode (JSON_stringify \<lparr>v = 1, c = lit ''none'', f = lit ''text'', os = 0, cs = 0, ts = 0\<rparr>)
    = [123, 34, 118, 34, 58, 49, 44, 34, 99, 34, 58, 34, 110, 111, 110, 101, 34, 44, 34, 102, 34, 58, 34, 116, 101, 120, 116, 34, 44, 34, 111, 115, 34, 58, 48, 44, 34, 99, 115, 34, 58, 48, 44, 34, 116, 115, 34, 58, 48, 125]"
  by (simp add: eval_text)

lemma empty_btoa:
  "btoa (binary_string
     [50, 0, 0, 0, 123, 34, 118, 34, 58, 49, 44, 34, 99, 34, 58, 34, 110, 111, 110, 101, 34, 44, 34, 102, 34, 58, 34, 116, 101, 120, 116, 34, 44, 34, 111, 115, 34, 58, 48, 44, 34, 99, 115, 34, 58, 48, 44, 34, 116, 115, 34, 58, 48, 125])
    = Inr empty_transport"
  by code_simp

lemma empty_encoded:
  "54 \<le> max_arguments Q \<Longrightarrow>
    encodeWithMetadata Q [] \<lparr>v = 1, c = lit ''none'', f = lit ''text'', os = 0, cs = 0, ts = 0\<rparr> = Inr empty_transport"
  unfolding encodeWithMetadata_def Let_def empty_metadata_bytes
  by (simp add: setUint32_le_def String_fromCharCode_def empty_btoa)

lemma empty_encoded_no_streams:
  "encodeWithMetadata no_streams [] \<lparr>v = 1, c = lit ''none'', f = lit ''text'', os = 0, cs = 0, ts = 0\<rparr> = Inr empty_transport"
  by (rule empty_encoded) (simp add: max_arguments_no_streams)

lemma empty_compress_metadata:
  "compress_metadata [] (lit ''text'') 0 = \<lparr>v = 1, c = lit ''none'', f = lit ''text'', os = 0, cs = 0, ts = 0\<rparr>"
  by (simp add: compress_metadata_def eval_text)

lemma empty_payload: "TextEncoder_encode [] = []"
  by (simp add: eval_text)

lemma empty_compress:
  "54 \<le> max_arguments Q \<Longrightarrow>
    compress Q this [] (lit ''text'') 0 = Inr empty_transport"
  using empty_encoded [of Q]
  unfolding compress_def Let_def empty_compress_metadata empty_payload
  by simp

lemma empty_compress_no_streams:
  "compress no_streams this [] (lit ''text'') 0 = Inr empty_transport"
  by (rule empty_compress) (simp add: max_arguments_no_streams)

lemma empty_in_range:
  "length (TextEncoder_encode (JSON_stringify (compress_metadata [] (lit ''text'') 0)))
    < 2 ^ 32"
  unfolding empty_compress_metadata empty_metadata_bytes
  by simp

lemma accent_metadata_bytes:
  "TextEncoder_encode (JSON_stringify \<lparr>v = 1, c = lit ''none'', f = lit ''text'', os = 1, cs = 2, ts = 0\<rparr>)
    = [123, 34, 118, 34, 58, 49, 44, 34, 99, 34, 58, 34, 110, 111, 110, 101, 34, 44, 34, 102, 34, 58, 34, 116, 101, 120, 116, 34, 44, 34, 111, 115, 34, 58, 49, 44, 34, 99, 115, 34, 58, 50, 44, 34, 116, 115, 34, 58, 48, 125]"
  by (simp add: eval_text)

lemma accent_btoa:
  "btoa (binary_string
     [50, 0, 0, 0, 123, 34, 118, 34, 58, 49, 44, 34, 99, 34, 58, 34, 110, 111, 110, 101, 34, 44, 34, 102, 34, 58, 34, 116, 101, 120, 116, 34, 44, 34, 111, 115, 34, 58, 49, 44, 34, 99, 115, 34, 58, 50, 44, 34, 116, 115, 34, 58, 48, 125, 195, 169])
    = Inr accent_transport"
  by code_simp

lemma accent_encoded:
  "56 \<le> max_arguments Q \<Longrightarrow>
    encodeWithMetadata Q [195, 169] \<lparr>v = 1, c = lit ''none'', f = lit ''text'', os = 1, cs = 2, ts = 0\<rparr> = Inr accent_transport"
  unfolding encodeWithMetadata_def Let_def accent_metadata_bytes
  by (simp add: setUint32_le_def String_fromCharCode_def accent_btoa)

lemma accent_encoded_no_streams:
  "encodeWithMetadata no_streams [195, 169] \<lparr>v = 1, c = lit ''none'', f = lit ''text'', os = 1, cs = 2, ts = 0\<rparr> = Inr accent_transport"
  by (rule accent_encoded) (simp add: max_arguments_no_streams)

lemma accent_compress_metadata:
  "compress_metadata [233] (lit ''text'') 0 = \<lparr>v = 1, c = lit ''none'', f = lit ''text'', os = 1, cs = 2, ts = 0\<rparr>"
  by (simp add: compress_metadata_def eval_text)

lemma accent_payload: "TextEncoder_encode [233] = [195, 169]"
  by (simp add: eval_text)

lemma accent_compress:
  "56 \<le> max_arguments Q \<Longrightarrow>
    compress Q this [233] (lit ''text'') 0 = Inr accent_transport"
  using accent_encoded [of Q]
  unfolding compress_def Let_def accent_compress_metadata accent_payload
  by simp

lemma accent_compress_no_streams:
  "compress no_streams this [233] (lit ''text'') 0 = Inr accent_transport"
  by (rule accent_compress) (simp add: max_arguments_no_streams)

lemma accent_in_range:
  "length (TextEncoder_encode (JSON_stringify (compress_metadata [233] (lit ''text'') 0)))
    < 2 ^ 32"
  unfolding accent_compress_metadata accent_metadata_bytes
  by simp

lemma bom_metadata_bytes:
  "TextEncoder_encode (JSON_stringify \<lparr>v = 1, c = lit ''none'', f = lit ''text'', os = 2, cs = 4, ts = 0\<rparr>)
    = [123, 34, 118, 34, 58, 49, 44, 34, 99, 34, 58, 34, 110, 111, 110, 101, 34, 44, 34, 102, 34, 58, 34, 116, 101, 120, 116, 34, 44, 34, 111, 115, 34, 58, 50, 44, 34, 99, 115, 34, 58, 52, 44, 34, 116, 115, 34, 58, 48, 125]"
  by (simp add: eval_text)

lemma bom_btoa:
  "btoa (binary_string
     [50, 0, 0, 0, 123, 34, 118, 34, 58, 49, 44, 34, 99, 34, 58, 34, 110, 111, 110, 101, 34, 44, 34, 102, 34, 58, 34, 116, 101, 120, 116, 34, 44, 34, 111, 115, 34, 58, 50, 44, 34, 99, 115, 34, 58, 52, 44, 34, 116, 115, 34, 58, 48, 125, 239, 187, 191, 65])
    = Inr bom_transport"
  by code_simp

lemma bom_encoded:
  "58 \<le> max_arguments Q \<Longrightarrow>
    encodeWithMetadata Q [239, 187, 191, 65] \<lparr>v = 1, c = lit ''none'', f = lit ''text'', os = 2, cs = 4, ts = 0\<rparr> = Inr bom_transport"
  unfolding encodeWithMetadata_def Let_def bom_metadata_bytes
  by (simp add: setUint32_le_def String_fromCharCode_def bom_btoa)

lemma bom_encoded_no_streams:
  "encodeWithMetadata no_streams [239, 187, 191, 65] \<lparr>v = 1, c = lit ''none'', f = lit ''text'', os = 2, cs = 4, ts = 0\<rparr> = Inr bom_transport"
  by (rule bom_encoded) (simp add: max_arguments_no_streams)

lemma bom_compress_metadata:
  "compress_metadata [65279, 65] (lit ''text'') 0 = \<lparr>v = 1, c = lit ''none'', f = lit ''text'', os = 2, cs = 4, ts = 0\<rparr>"
  by (simp add: compress_metadata_def eval_text)

lemma bom_payload: "TextEncoder_encode [65279, 65] = [239, 187, 191, 65]"
  by (simp add: eval_text)

lemma bom_compress:
  "58 \<le> max_arguments Q \<Longrightarrow>
    compress Q this [65279, 65] (lit ''text'') 0 = Inr bom_transport"
  using bom_encoded [of Q]
  unfolding compress_def Let_def bom_compress_metadata bom_payload
  by simp

lemma bom_compress_no_streams:
  "compress no_streams this [65279, 65] (lit ''text'') 0 = Inr bom_transport"
  by (rule bom_compress) (simp add: max_arguments_no_streams)

lemma bom_in_range:
  "length (TextEncoder_encode (JSON_stringify (compress_metadata [65279, 65] (lit ''text'') 0)))
    < 2 ^ 32"
  unfolding bom_compress_metadata bom_metadata_bytes
  by simp

lemma zzz_metadata_bytes:
  "TextEncoder_encode (JSON_stringify \<lparr>v = 1, c = lit ''zzz'', f = lit ''text'', os = 2, cs = 2, ts = 0\<rparr>)
    = [123, 34, 118, 34, 58, 49, 44, 34, 99, 34, 58, 34, 122, 122, 122, 34, 44, 34, 102, 34, 58, 34, 116, 101, 120, 116, 34, 44, 34, 111, 115, 34, 58, 50, 44, 34, 99, 115, 34, 58, 50, 44, 34, 116, 115, 34, 58, 48, 125]"
  by (simp add: eval_text)

lemma zzz_btoa:
  "btoa (binary_string
     [49, 0, 0, 0, 123, 34, 118, 34, 58, 49, 44, 34, 99, 34, 58, 34, 122, 122, 122, 34, 44, 34, 102, 34, 58, 34, 116, 101, 120, 116, 34, 44, 34, 111, 115, 34, 58, 50, 44, 34, 99, 115, 34, 58, 50, 44, 34, 116, 115, 34, 58, 48, 125, 104, 105])
    = Inr zzz_transport"
  by code_simp

lemma zzz_encoded:
  "55 \<le> max_arguments Q \<Longrightarrow>
    encodeWithMetadata Q [104, 105] \<lparr>v = 1, c = lit ''zzz'', f = lit ''text'', os = 2, cs = 2, ts = 0\<rparr> = Inr zzz_transport"
  unfolding encodeWithMetadata_def Let_def zzz_metadata_bytes
  by (simp add: setUint32_le_def String_fromCharCode_def zzz_btoa)

lemma zzz_encoded_no_streams:
  "encodeWithMetadata no_streams [104, 105] \<lparr>v = 1, c = lit ''zzz'', f = lit ''text'', os = 2, cs = 2, ts = 0\<rparr> = Inr zzz_transport"
  by (rule zzz_encoded) (simp add: max_arguments_no_streams)

lemma zzz_in_range:
  "length (TextEncoder_encode (JSON_stringify \<lparr>v = 1, c = lit ''zzz'', f = lit ''text'', os = 2, cs = 2, ts = 0\<rparr>)) < 2 ^ 32"
  unfolding zzz_metadata_bytes
  by simp


section \<open>The claims about the codec\<close>

lemma get_property_metadata:
  "get_property (metadata_json m) (lit ''v'') = Inr (Some (JNumber (of_nat (v m))))"
  "get_property (metadata_json m) (lit ''f'') = Inr (Some (JString (f m)))"
  "get_property (metadata_json m) (lit ''os'') = Inr (Some (JNumber (of_nat (os m))))"
  by (simp_all add: get_property_def metadata_json_def lit_def)

lemma compress_metadata_fields:
  "v (compress_metadata text format now) = 1"
  "f (compress_metadata text format now) = format"
  "os (compress_metadata text format now) = length text"
  by (simp_all add: compress_metadata_def Let_def)

text \<open>
  C2. The container that \<open>compress\<close> encodes starts with the length of the metadata
  bytes as four little-endian bytes, then holds the metadata bytes and the payload, and
  nothing else: its length is 4 plus the two lengths. The length of the metadata has to
  fit the 32 bits of the prefix.
\<close>

theorem framing_invariant:
  assumes "compress Q this text format now = Inr t"
    and "length (TextEncoder_encode (JSON_stringify (compress_metadata text format now)))
      < 2 ^ 32"
  shows "\<exists>binaryStr.
      atob t = Inr binaryStr
    \<and> getUint32_le (Uint8Array_from_binary binaryStr)
      = Inr (length (TextEncoder_encode (JSON_stringify (compress_metadata text format now))))
    \<and> take (length (TextEncoder_encode (JSON_stringify (compress_metadata text format now))))
        (drop 4 (Uint8Array_from_binary binaryStr))
      = TextEncoder_encode (JSON_stringify (compress_metadata text format now))
    \<and> drop (4 + length (TextEncoder_encode (JSON_stringify (compress_metadata text format now))))
        (Uint8Array_from_binary binaryStr)
      = TextEncoder_encode text
    \<and> length (Uint8Array_from_binary binaryStr)
      = 4 + length (TextEncoder_encode (JSON_stringify (compress_metadata text format now)))
        + length (TextEncoder_encode text)"
proof -
  let ?mb = "TextEncoder_encode (JSON_stringify (compress_metadata text format now))"
  let ?bytes = "setUint32_le (length ?mb) @ ?mb @ TextEncoder_encode text"
  have "atob t = Inr (binary_string ?bytes)"
    by (rule atob_encodeWithMetadata [OF compress_Inr [OF assms(1)]])
  moreover have "Uint8Array_from_binary (binary_string ?bytes) = ?bytes"
    by (rule Uint8Array_from_binary_string)
  moreover have "getUint32_le ?bytes = Inr (length ?mb)"
    using assms(2) by (simp add: getUint32_setUint32)
  ultimately show ?thesis
    by (simp add: length_setUint32_le)
qed

theorem framing_invariant_witness:
  "compress no_streams \<lparr>supportsBrotli = True, supportsGzip = True\<rparr> (lit ''hi'') (lit ''text'') 0
      = Inr hi_transport
    \<and> length (TextEncoder_encode (JSON_stringify (compress_metadata (lit ''hi'') (lit ''text'') 0)))
      < (2 :: nat) ^ 32
    \<and> (\<exists>binaryStr.
      atob hi_transport = Inr binaryStr
    \<and> getUint32_le (Uint8Array_from_binary binaryStr) = Inr 50
    \<and> length (Uint8Array_from_binary binaryStr) = 4 + 50 + 2)"
proof -
  have n: "length (TextEncoder_encode (JSON_stringify (compress_metadata (lit ''hi'') (lit ''text'') 0)))
      = 50"
    unfolding hi_compress_metadata hi_metadata_bytes by simp
  have p: "length (TextEncoder_encode (lit ''hi'')) = 2"
    unfolding hi_payload by simp
  show ?thesis
    using framing_invariant [OF hi_compress_no_streams hi_in_range] hi_compress_no_streams
      hi_in_range
    unfolding n p by blast
qed

text \<open>
  C9. \<open>compress\<close> of \<open>js/compression-fixed.js\<close> never compresses. Whatever the two
  fields of the object hold, a string that it returns decodes to metadata with \<open>c\<close> equal
  to \<open>none\<close> and to a payload that is the UTF-8 bytes of the input. (It returns none when
  the container has more bytes than a call takes arguments: lemma \<open>compress_fails\<close>.)
\<close>

theorem compress_never_compresses:
  assumes "compress Q this text format now = Inr t"
    and "length (TextEncoder_encode (JSON_stringify (compress_metadata text format now)))
      < 2 ^ 32"
  shows "\<exists>m. decodeWithMetadata t = Inr (TextEncoder_encode text, m)
    \<and> get_property m (lit ''c'') = Inr (Some (JString (lit ''none'')))"
proof -
  have "decodeWithMetadata t
      = Inr (TextEncoder_encode text, metadata_json (compress_metadata text format now))"
    by (rule decodeWithMetadata_encoded [OF compress_Inr [OF assms(1)] assms(2)])
  then show ?thesis
    by (simp add: get_property_metadata_c compress_metadata_c)
qed

theorem compress_never_compresses_witness:
  "compress no_streams \<lparr>supportsBrotli = True, supportsGzip = True\<rparr> (lit ''hi'') (lit ''text'') 0
      = Inr hi_transport
    \<and> length (TextEncoder_encode (JSON_stringify (compress_metadata (lit ''hi'') (lit ''text'') 0)))
      < (2 :: nat) ^ 32
    \<and> (\<exists>m. decodeWithMetadata hi_transport = Inr (TextEncoder_encode (lit ''hi''), m)
        \<and> get_property m (lit ''c'') = Inr (Some (JString (lit ''none''))))"
  using compress_never_compresses [OF hi_compress_no_streams hi_in_range]
    hi_compress_no_streams hi_in_range
  by blast

text \<open>
  C6. What \<open>decompress\<close> returns for a string that \<open>compress\<close> returned has metadata with
  \<open>f\<close> equal to the format given, \<open>v\<close> equal to 1 and \<open>c\<close> equal to \<open>none\<close>, the codec
  used: the payload of the container is the UTF-8 bytes of the input.
\<close>

theorem metadata_integrity:
  assumes "compress Q this text format now = Inr t"
    and "length (TextEncoder_encode (JSON_stringify (compress_metadata text format now)))
      < 2 ^ 32"
  shows "\<exists>res m. decompress P this' t = Inr res
    \<and> get_property (metadata res) (lit ''f'') = Inr (Some (JString format))
    \<and> get_property (metadata res) (lit ''c'') = Inr (Some (JString (lit ''none'')))
    \<and> get_property (metadata res) (lit ''v'') = Inr (Some (JNumber 1))
    \<and> decodeWithMetadata t = Inr (TextEncoder_encode text, m)"
proof -
  have d: "decodeWithMetadata t
      = Inr (TextEncoder_encode text, metadata_json (compress_metadata text format now))"
    by (rule decodeWithMetadata_encoded [OF compress_Inr [OF assms(1)] assms(2)])
  show ?thesis
    using d decompress_compress [OF assms, of P this']
    by (simp add: get_property_metadata get_property_metadata_c compress_metadata_c
        compress_metadata_fields)
qed

theorem metadata_integrity_witness:
  "compress no_streams (MakeSitesCompression no_streams) (lit ''hi'') (lit ''text'') 0
      = Inr hi_transport
    \<and> length (TextEncoder_encode (JSON_stringify (compress_metadata (lit ''hi'') (lit ''text'') 0)))
      < (2 :: nat) ^ 32
    \<and> (\<exists>res m. decompress no_streams (MakeSitesCompression no_streams) hi_transport = Inr res
        \<and> get_property (metadata res) (lit ''f'') = Inr (Some (JString (lit ''text'')))
        \<and> get_property (metadata res) (lit ''c'') = Inr (Some (JString (lit ''none'')))
        \<and> get_property (metadata res) (lit ''v'') = Inr (Some (JNumber 1))
        \<and> decodeWithMetadata hi_transport = Inr (TextEncoder_encode (lit ''hi''), m))"
  using metadata_integrity [where P = no_streams and this' = "MakeSitesCompression no_streams",
      OF hi_compress_no_streams hi_in_range]
    hi_compress_no_streams hi_in_range
  by blast

text \<open>
  C1 fails on a string that starts with U+FEFF: \<open>compress\<close> stores the three bytes of
  that character, and the \<open>TextDecoder\<close> of \<open>decompress\<close>, made without \<open>ignoreBOM\<close>,
  drops them. The content returned for U+FEFF followed by \<open>A\<close> is \<open>A\<close>.
\<close>

theorem byte_order_mark_lost:
  "compress no_streams this [0xFEFF, 0x41] (lit ''text'') 0 = Inr bom_transport
    \<and> well_formed [0xFEFF, 0x41]
    \<and> decompress P this' bom_transport
      = Inr \<lparr>content = [0x41],
             metadata = metadata_json (compress_metadata [0xFEFF, 0x41] (lit ''text'') 0)\<rparr>"
proof -
  have "TextDecoder_decode (TextEncoder_encode [0xFEFF, 0x41]) = [0x41]"
    unfolding bom_payload
    by (simp add: TextDecoder_decode_def strip_bom_def utf16_units_def continuation_def)
  then show ?thesis
    using decompress_compress [OF bom_compress_no_streams bom_in_range, of P this']
      bom_compress_no_streams
    by (simp add: is_surrogate_def)
qed

text \<open>
  C5 fails on a string with a character outside ASCII: \<open>os\<close> is \<open>content.length\<close>, the
  number of UTF-16 code units. For the one character U+00E9 it is 1, and the UTF-8
  encoding has 2 bytes. For the empty string it is 0.
\<close>

theorem os_counts_code_units:
  "compress no_streams this [0xE9] (lit ''text'') 0 = Inr accent_transport
    \<and> (\<exists>res. decompress P this' accent_transport = Inr res
          \<and> get_property (metadata res) (lit ''os'') = Inr (Some (JNumber 1)))
    \<and> length (TextEncoder_encode [0xE9]) = 2
    \<and> compress no_streams this [] (lit ''text'') 0 = Inr empty_transport
    \<and> (\<exists>res. decompress P this' empty_transport = Inr res
          \<and> get_property (metadata res) (lit ''os'') = Inr (Some (JNumber 0)))"
proof -
  have "length (TextEncoder_encode [0xE9]) = 2"
    unfolding accent_payload by simp
  then show ?thesis
    using decompress_compress [OF accent_compress_no_streams accent_in_range, of P this']
      decompress_compress [OF empty_compress_no_streams empty_in_range, of P this']
      accent_compress_no_streams empty_compress_no_streams
    by (simp add: get_property_metadata compress_metadata_fields)
qed

text \<open>
  C4 fails in \<open>js/compression-fixed.js\<close>: its \<open>decompress\<close> treats every \<open>c\<close> other than
  \<open>gz\<close> and \<open>br\<close> as no compression. A container with \<open>c = "zzz"\<close> and the payload \<open>hi\<close>
  decodes to the content \<open>hi\<close>. The version with Pako rejects the same container with
  \<open>Unsupported compression type: zzz\<close>.
\<close>

theorem unknown_codec_passes_through:
  "decompress P this zzz_transport
      = Inr \<lparr>content = lit ''hi'',
             metadata = metadata_json
               \<lparr>v = 1, c = lit ''zzz'', f = lit ''text'', os = 2, cs = 2, ts = 0\<rparr>\<rparr>
    \<and> decompress_pako P supportsPako zzz_transport
      = Inl (ErrorFrom ''Failed to decompress content: ''
              (ErrorValue ''Unsupported compression type: '' (Some (JString (lit ''zzz'')))))"
proof -
  let ?m = "\<lparr>v = 1, c = lit ''zzz'', f = lit ''text'', os = 2, cs = 2, ts = 0\<rparr>"
  have ne: "c ?m \<noteq> lit ''gz''" "c ?m \<noteq> lit ''br''" "c ?m \<noteq> lit ''gzip''"
    "c ?m \<noteq> lit ''none''"
    by (simp_all add: lit_def)
  have "TextDecoder_decode [104, 105] = lit ''hi''"
    by (simp add: TextDecoder_decode_def strip_bom_def utf16_units_def lit_def)
  then have a: "decompress P this zzz_transport
      = Inr \<lparr>content = lit ''hi'', metadata = metadata_json ?m\<rparr>"
    using decompress_encoded [OF zzz_encoded_no_streams zzz_in_range ne(1,2), of P this] by simp
  have "decompress_pako_try P supportsPako zzz_transport
      = Inl (ErrorValue ''Unsupported compression type: '' (Some (JString (lit ''zzz''))))"
    using ne
    by (simp add: decompress_pako_try_def decodeWithMetadata_encoded [OF zzz_encoded_no_streams zzz_in_range]
        get_property_metadata_c)
  then show ?thesis
    using a by (simp add: decompress_pako_def)
qed


section \<open>The claims about the statistics\<close>

lemma getStats_eq:
  assumes "atob t = Inr binaryStr"
  shows "getStats P text t =
    Inr \<lparr>originalSize = length (TextEncoder_encode text),
         compressedSize = length binaryStr,
         ratio = Math_round
           (js_mul (js_sub (js_of_int 1)
              (js_div (js_of_int (int (length binaryStr)))
                      (js_of_int (int (length (TextEncoder_encode text))))))
              (js_of_int 100)),
         readable =
           \<lparr>original = formatBytes P (int (length (TextEncoder_encode text))),
            compressed = formatBytes P (int (length binaryStr)),
            saved = formatBytes P
              (int (length (TextEncoder_encode text)) - int (length binaryStr))\<rparr>\<rparr>"
  using assms by (simp add: getStats_def Let_def)

text \<open>
  C7. For a transport string that decodes, \<open>getStats\<close> returns the number of UTF-8 bytes
  of the original text, the number of bytes of the whole decoded string, and the ratio
  computed from the two in double arithmetic, whatever its sign. For a string that
  \<open>_encodeWithMetadata\<close> made, the second number is 4 plus the length of the metadata plus
  the length of the payload.
\<close>

theorem getStats_sizes_and_ratio:
  assumes "atob t = Inr binaryStr"
  shows "\<exists>st. getStats P text t = Inr st
    \<and> originalSize st = length (TextEncoder_encode text)
    \<and> compressedSize st = length binaryStr
    \<and> ratio st = Math_round
          (js_mul (js_sub (js_of_int 1)
             (js_div (js_of_int (int (compressedSize st))) (js_of_int (int (originalSize st)))))
             (js_of_int 100))
    \<and> (\<forall>Q data m. encodeWithMetadata Q data m = Inr t \<longrightarrow>
          compressedSize st
            = 4 + length (TextEncoder_encode (JSON_stringify m)) + length data)"
proof -
  have "length binaryStr = 4 + length (TextEncoder_encode (JSON_stringify m)) + length data"
    if "encodeWithMetadata Q data m = Inr t" for Q data m
    using atob_encodeWithMetadata [OF that] assms
    by (simp add: length_binary_string length_setUint32_le)
  then show ?thesis
    by (simp add: getStats_eq [OF assms])
qed

lemma hi_atob:
  "atob hi_transport = Inr (binary_string
     (setUint32_le (length (TextEncoder_encode (JSON_stringify
        \<lparr>v = 1, c = lit ''none'', f = lit ''text'', os = 2, cs = 2, ts = 0\<rparr>)))
      @ TextEncoder_encode (JSON_stringify
        \<lparr>v = 1, c = lit ''none'', f = lit ''text'', os = 2, cs = 2, ts = 0\<rparr>)
      @ [104, 105]))"
  by (rule atob_encodeWithMetadata [OF hi_encoded_no_streams])

lemma hi_atob_length: "atob hi_transport = Inr binaryStr \<Longrightarrow> length binaryStr = 56"
  unfolding hi_atob hi_metadata_bytes
  by (auto simp: length_binary_string length_setUint32_le)

theorem getStats_sizes_and_ratio_witness:
  "(\<exists>binaryStr. atob hi_transport = Inr binaryStr)
    \<and> (\<exists>st. getStats no_streams (lit ''hi'') hi_transport = Inr st
        \<and> originalSize st = 2
        \<and> compressedSize st = 56
        \<and> ratio st = Integer (- 2700)
        \<and> encodeWithMetadata no_streams [104, 105]
             \<lparr>v = 1, c = lit ''none'', f = lit ''text'', os = 2, cs = 2, ts = 0\<rparr>
           = Inr hi_transport)"
proof -
  obtain binaryStr where a: "atob hi_transport = Inr binaryStr"
    using hi_atob by blast
  have n: "length binaryStr = 56"
    using a by (rule hi_atob_length)
  have p: "length (TextEncoder_encode (lit ''hi'')) = 2"
    unfolding hi_payload by simp
  show ?thesis
    using getStats_sizes_and_ratio [OF a, of no_streams "lit ''hi''"] a hi_encoded_no_streams
    unfolding n p by (auto simp: ratio_example)
qed

text \<open>
  C8, as the code has it. \<open>getStats\<close> divides by the size of the original text without
  looking at it. For the empty text its ratio is \<open>-Infinity\<close> when the transport string
  decodes to at least one byte, and \<open>NaN\<close> when it decodes to none; nothing is thrown.
\<close>

theorem ratio_of_empty_text:
  assumes "atob t = Inr binaryStr"
  shows "\<exists>st. getStats P [] t = Inr st
    \<and> originalSize st = 0
    \<and> ratio st = (if binaryStr = [] then INaN else INegInf)"
proof -
  have "TextEncoder_encode [] = []"
    by (simp add: TextEncoder_encode_def)
  then show ?thesis
    using ratio_of_empty [of "length binaryStr"]
    by (simp add: getStats_eq [OF assms])
qed

lemma empty_atob: "\<exists>binaryStr. atob empty_transport = Inr binaryStr \<and> binaryStr \<noteq> []"
  using atob_encodeWithMetadata [OF empty_encoded_no_streams]
  by (simp add: binary_string_def setUint32_le_def)

theorem ratio_of_empty_text_witness:
  "(\<exists>binaryStr. atob empty_transport = Inr binaryStr)
    \<and> (\<exists>st. getStats no_streams [] empty_transport = Inr st \<and> originalSize st = 0 \<and> ratio st = INegInf)"
proof -
  obtain binaryStr where a: "atob empty_transport = Inr binaryStr" and ne: "binaryStr \<noteq> []"
    using empty_atob by blast
  show ?thesis
    using ratio_of_empty_text [OF a, of no_streams] a ne by auto
qed

text \<open>
  C8 as the specification states it fails: for the empty text and what \<open>compress\<close> returns
  for it, the ratio is \<open>-Infinity\<close>.
\<close>

theorem empty_text_ratio_is_infinite:
  "compress no_streams (MakeSitesCompression no_streams) [] (lit ''text'') 0 = Inr empty_transport
    \<and> (case getStats no_streams [] empty_transport of
          Inl e \<Rightarrow> False
        | Inr st \<Rightarrow> ratio st = INegInf)"
proof -
  obtain binaryStr where a: "atob empty_transport = Inr binaryStr" and ne: "binaryStr \<noteq> []"
    using empty_atob by blast
  have "TextEncoder_encode [] = []"
    by (simp add: TextEncoder_encode_def)
  then have "getStats no_streams [] empty_transport = Inr st \<Longrightarrow> ratio st = INegInf" for st
    using ratio_of_empty [of "length binaryStr"] ne
    by (auto simp: getStats_eq [OF a])
  then show ?thesis
    using empty_compress_no_streams by (auto simp: getStats_eq [OF a] split: sum.splits)
qed

text \<open>
  C10. When the decoded transport string has more bytes than the original text,
  \<open>readable.saved\<close> is the text \<open>NaN undefined\<close>: \<open>_formatBytes\<close> gets a negative number,
  whose logarithm is \<open>NaN\<close>.
\<close>

theorem saved_is_NaN_undefined:
  assumes "atob t = Inr binaryStr"
    and "length (TextEncoder_encode text) < length binaryStr"
  shows "\<exists>st. getStats P text t = Inr st
    \<and> originalSize st < compressedSize st
    \<and> saved (readable st) = lit ''NaN undefined''"
  using assms(2) by (simp add: getStats_eq [OF assms(1)] formatBytes_negative)

theorem saved_is_NaN_undefined_witness:
  "(\<exists>binaryStr. atob hi_transport = Inr binaryStr
      \<and> length (TextEncoder_encode (lit ''hi'')) < length binaryStr)
    \<and> (\<exists>st. getStats no_streams (lit ''hi'') hi_transport = Inr st
        \<and> originalSize st < compressedSize st
        \<and> saved (readable st) = lit ''NaN undefined'')"
proof -
  obtain binaryStr where a: "atob hi_transport = Inr binaryStr"
    using hi_atob by blast
  have n: "length (TextEncoder_encode (lit ''hi'')) < length binaryStr"
    unfolding hi_payload hi_atob_length [OF a] by simp
  show ?thesis
    using saved_is_NaN_undefined [OF a n, of no_streams] a n by blast
qed

lemma saved_after_compress:
  assumes "compress Q this text format now = Inr t"
  shows "\<exists>st. getStats P text t = Inr st \<and> saved (readable st) = lit ''NaN undefined''"
proof -
  have a: "atob t = Inr (binary_string
      (setUint32_le (length (TextEncoder_encode (JSON_stringify
          (compress_metadata text format now))))
       @ TextEncoder_encode (JSON_stringify (compress_metadata text format now))
       @ TextEncoder_encode text))"
    by (rule atob_encodeWithMetadata [OF compress_Inr [OF assms]])
  show ?thesis
    by (simp add: getStats_eq [OF a] formatBytes_negative length_binary_string
        length_setUint32_le)
qed


section \<open>The round trip of the version with streams\<close>

text \<open>
  \<open>decompress\<close> of this version selects the codec by \<open>metadata.compression\<close>, and
  \<open>_createMetadata\<close> writes the codec under \<open>c\<close>. So every string that its \<open>compress\<close>
  returns is rejected by its \<open>decompress\<close>.
\<close>

lemma well_formed_JSON_stringify_r: "well_formed (JSON_stringify_r m)"
  unfolding JSON_stringify_r_def
  by (cases "r m")
    (simp_all, (intro well_formed_append well_formed_lit well_formed_QuoteJSONString
      well_formed_Number_toString)+)

lemma hd_JSON_stringify_r: "JSON_stringify_r m \<noteq> [] \<and> hd (JSON_stringify_r m) = 0x7B"
  by (simp add: JSON_stringify_r_def lit_def)

lemma TextDecoder_metadata_r:
  "TextDecoder_decode (TextEncoder_encode (JSON_stringify_r m)) = JSON_stringify_r m"
  using hd_JSON_stringify_r [of m]
  by (intro TextDecoder_TextEncoder_id well_formed_JSON_stringify_r) simp

lemma parse_value_null_comma:
  "parse_value (Suc n) (0x6E # 0x75 # 0x6C # 0x6C # 0x2C # rest) = Some (JNull, 0x2C # rest)"
  by (simp add: skip_ws_def json_whitespace_def parse_literal_def strip_prefix_def lit_def
      is_digit_def)

lemma parse_metadata_r_text:
  "parse_value (Suc (Suc (Suc (Suc (Suc (Suc (Suc (Suc (Suc n))))))))) (JSON_stringify_r m)
    = Some (metadata_r_json m, [])"
  by (cases "r m")
    (simp_all add: JSON_stringify_r_def lit_def QuoteJSONString_def metadata_r_json_def
      skip_ws_def json_whitespace_def cons_result_def
      parse_value_object parse_value_string parse_value_number_comma parse_value_number_brace
      parse_value_null_comma
      del: parse_value.simps)

lemma JSON_parse_stringify_r: "JSON_parse (JSON_stringify_r m) = Inr (metadata_r_json m)"
proof -
  have "4 \<le> length (JSON_stringify_r m)"
    by (simp add: JSON_stringify_r_def lit_def)
  then have "2 * length (JSON_stringify_r m) + 2
      = Suc (Suc (Suc (Suc (Suc (Suc (Suc (Suc (Suc (2 * length (JSON_stringify_r m) - 7)))))))))"
    by simp
  then show ?thesis
    unfolding JSON_parse_def by (simp only: parse_metadata_r_text) (simp add: skip_ws_def)
qed

lemma atob_encodeWithMetadata_r:
  assumes "encodeWithMetadata_r Q data m = Inr t"
  shows "atob t = Inr (binary_string
       (setUint32_le (length (TextEncoder_encode (JSON_stringify_r m)))
        @ TextEncoder_encode (JSON_stringify_r m) @ data))"
  using assms
  by (intro atob_btoa)
    (simp add: encodeWithMetadata_r_def String_fromCharCode_def Let_def split: if_splits)

lemma decodeWithMetadata_streams_encoded:
  assumes "encodeWithMetadata_r Q data m = Inr t"
    and "length (TextEncoder_encode (JSON_stringify_r m)) < 2 ^ 32"
  shows "decodeWithMetadata_streams t = Inr (data, metadata_r_json m)"
proof -
  let ?mb = "TextEncoder_encode (JSON_stringify_r m)"
  let ?bytes = "setUint32_le (length ?mb) @ ?mb @ data"
  have a: "atob t = Inr (binary_string ?bytes)"
    using assms(1) by (rule atob_encodeWithMetadata_r)
  have b: "Uint8Array_from_binary (binary_string ?bytes) = ?bytes"
    by (rule Uint8Array_from_binary_string)
  have g: "getUint32_le ?bytes = Inr (length ?mb)"
    using assms(2) by (simp add: getUint32_setUint32)
  show ?thesis
    unfolding decodeWithMetadata_streams_def
    by (simp add: a b g length_setUint32_le TextDecoder_metadata_r JSON_parse_stringify_r)
qed

lemma get_property_compression:
  "get_property (metadata_r_json m) (lit ''compression'') = Inr None"
  by (simp add: get_property_def metadata_r_json_def lit_def)

lemma decompress_streams_encoded:
  assumes "encodeWithMetadata_r Q data m = Inr t"
    and "length (TextEncoder_encode (JSON_stringify_r m)) < 2 ^ 32"
  shows "decompress_streams P t = Inl (Error ''Failed to decompress content'')"
  by (simp add: decompress_streams_def decompress_streams_try_def
      decodeWithMetadata_streams_encoded [OF assms] get_property_compression)

lemma compress_streams_encoded:
  assumes "compress_streams P this text format now = Inr t"
  shows "\<exists>data tag. encodeWithMetadata_r P data (createMetadata_r text data tag format now) = Inr t"
  using assms
  by (auto simp: compress_streams_def Let_def split: if_splits sum.splits)

lemma hi_streams_metadata:
  "createMetadata_r (lit ''hi'') [104, 105] (lit ''none'') (lit ''text'') 0
    = \<lparr>v = 1, c = lit ''none'', f = lit ''text'', os = 2, cs = 2, ts = 0, r = Integer 0\<rparr>"
  by (simp add: createMetadata_r_def lit_def eval_number)

lemma hi_streams_metadata_bytes:
  "TextEncoder_encode (JSON_stringify_r
      \<lparr>v = 1, c = lit ''none'', f = lit ''text'', os = 2, cs = 2, ts = 0, r = Integer 0\<rparr>)
    = [123, 34, 118, 34, 58, 49, 44, 34, 99, 34, 58, 34, 110, 111, 110, 101, 34, 44, 34, 102, 34, 58, 34, 116, 101, 120, 116, 34, 44, 34, 111, 115, 34, 58, 50, 44, 34, 99, 115, 34, 58, 50, 44, 34, 114, 34, 58, 48, 44, 34, 116, 115, 34, 58, 48, 125]"
  by (simp add: JSON_stringify_r_def eval_text)

lemma hi_streams_btoa:
  "btoa (binary_string
     [56, 0, 0, 0, 123, 34, 118, 34, 58, 49, 44, 34, 99, 34, 58, 34, 110, 111, 110, 101, 34, 44, 34, 102, 34, 58, 34, 116, 101, 120, 116, 34, 44, 34, 111, 115, 34, 58, 50, 44, 34, 99, 115, 34, 58, 50, 44, 34, 114, 34, 58, 48, 44, 34, 116, 115, 34, 58, 48, 125, 104, 105])
    = Inr hi_streams_transport"
  by code_simp

lemma hi_streams_encoded:
  "encodeWithMetadata_r no_streams [104, 105]
      \<lparr>v = 1, c = lit ''none'', f = lit ''text'', os = 2, cs = 2, ts = 0, r = Integer 0\<rparr>
    = Inr hi_streams_transport"
  unfolding encodeWithMetadata_r_def Let_def hi_streams_metadata_bytes
  by (simp add: setUint32_le_def String_fromCharCode_def max_arguments_no_streams
      hi_streams_btoa)

lemma hi_streams_compress:
  "compress_streams no_streams (MakeSitesCompression_streams no_streams) (lit ''hi'') (lit ''text'') 0
    = Inr hi_streams_transport"
  using hi_streams_encoded
  by (simp add: compress_streams_def MakeSitesCompression_streams_def no_streams_def
      hi_payload hi_streams_metadata)

lemma hi_streams_round_trip_fails:
  "decompress_streams P hi_streams_transport = Inl (Error ''Failed to decompress content'')"
proof (rule decompress_streams_encoded [OF hi_streams_encoded])
  show "length (TextEncoder_encode (JSON_stringify_r
      \<lparr>v = 1, c = lit ''none'', f = lit ''text'', os = 2, cs = 2, ts = 0, r = Integer 0\<rparr>))
    < 2 ^ 32"
    unfolding hi_streams_metadata_bytes by simp
qed


end
